theory Spec2Isabelle
  imports Main "HOL-Library.AList"
begin

section \<open>Document Conversion Assistant: the conversion pipeline of \<open>src/final-test/src/index.ts\<close>\<close>

text \<open>
  The development embeds the class \<open>DocumentConverter\<close> (\<open>detectFormat\<close>, \<open>readDocument\<close>,
  the five readers, \<open>convertDocument\<close>, \<open>convertToHTML\<close>, \<open>convertToMarkdown\<close>,
  \<open>convertToPDF\<close>) and the tool handlers \<open>convert_document\<close>, \<open>get_document_info\<close> and
  \<open>batch_convert\<close>.

  The code is asynchronous but strictly sequential (every call is awaited), so it is modelled
  by explicit state passing over a \<open>world\<close>: the file system the process sees, and the trace of
  the calls it made to the file system and to the third-party libraries. A thrown exception is
  a value \<open>Inl e\<close> of the result type.
\<close>

subsection \<open>Node's \<open>path\<close> module (POSIX flavour)\<close>

text \<open>
  The code calls \<open>path.extname\<close>, \<open>path.basename\<close> and \<open>path.join\<close>. The image the server
  runs in is Linux (\<open>node:18-alpine\<close>), so these are the functions of \<open>path.posix\<close>. Strings
  are lists of 8-bit characters.
\<close>

fun split_path :: "string \<Rightarrow> string list" where
  "split_path [] = [[]]"
| "split_path (c # cs) =
     (if c = CHR ''/'' then [] # split_path cs
      else (case split_path cs of [] \<Rightarrow> [[c]] | seg # segs \<Rightarrow> (c # seg) # segs))"

text \<open>
  \<open>normalizeString\<close>: empty segments and \<open>.\<close> are dropped; \<open>..\<close> removes the segment before
  it, unless there is none (or it is itself \<open>..\<close>), in which case it is kept when the path is
  relative (\<open>allowAboveRoot\<close>) and dropped when it is absolute.
\<close>

definition norm_step :: "bool \<Rightarrow> string list \<Rightarrow> string \<Rightarrow> string list" where
  "norm_step allowAboveRoot acc seg =
     (if seg = [] \<or> seg = ''.'' then acc
      else if seg = ''..'' then
        (if acc \<noteq> [] \<and> last acc \<noteq> ''..'' then butlast acc
         else if allowAboveRoot then acc @ [''..''] else acc)
      else acc @ [seg])"

definition normalizeString :: "bool \<Rightarrow> string \<Rightarrow> string list" where
  "normalizeString allowAboveRoot p = foldl (norm_step allowAboveRoot) [] (split_path p)"

fun join_segs :: "string list \<Rightarrow> string" where
  "join_segs [] = []"
| "join_segs [seg] = seg"
| "join_segs (seg # segs) = seg @ ''/'' @ join_segs segs"

definition is_absolute :: "string \<Rightarrow> bool" where
  "is_absolute p = (p \<noteq> [] \<and> hd p = CHR ''/'')"

definition trailing_slash :: "string \<Rightarrow> bool" where
  "trailing_slash p = (p \<noteq> [] \<and> last p = CHR ''/'')"

definition path_normalize :: "string \<Rightarrow> string" where
  "path_normalize p =
     (if p = [] then ''.''
      else
        let body = join_segs (normalizeString (\<not> is_absolute p) p) in
        if body = [] then
          (if is_absolute p then ''/'' else if trailing_slash p then ''./'' else ''.'')
        else
          (if is_absolute p then ''/'' else []) @ body @ (if trailing_slash p then ''/'' else []))"

text \<open>\<open>path.join(a, b)\<close>: the non-empty arguments joined by \<open>/\<close>, then normalised.\<close>

definition path_join :: "string \<Rightarrow> string \<Rightarrow> string" where
  "path_join a b =
     (if a = [] \<and> b = [] then ''.''
      else if a = [] then path_normalize b
      else if b = [] then path_normalize a
      else path_normalize (a @ ''/'' @ b))"

text \<open>
  The last component of a path: trailing slashes are skipped, and the component runs back to
  the slash before it.
\<close>

definition last_component :: "string \<Rightarrow> string" where
  "last_component p =
     rev (takeWhile (\<lambda>c. c \<noteq> CHR ''/'') (dropWhile (\<lambda>c. c = CHR ''/'') (rev p)))"

text \<open>
  \<open>path.extname\<close>: from the last dot of the last component to its end; empty when there is
  no dot, when the last dot is the component's first character, or when the component is \<open>..\<close>.
\<close>

definition path_extname :: "string \<Rightarrow> string" where
  "path_extname p =
     (let comp = last_component p;
          after_dot = takeWhile (\<lambda>c. c \<noteq> CHR ''.'') (rev comp)
      in if CHR ''.'' \<notin> set comp then []
         else if length after_dot + 1 = length comp \<or> comp = ''..'' then []
         else CHR ''.'' # rev after_dot)"

definition ends_with :: "string \<Rightarrow> string \<Rightarrow> bool" where
  "ends_with s sfx = (length sfx \<le> length s \<and> drop (length s - length sfx) s = sfx)"

text \<open>
  \<open>path.basename(p, suffix)\<close>; an empty suffix stands for the call without one. With a suffix
  (not longer than the path) the component is compared with it from the right: a suffix equal
  to the whole path gives the empty string, a suffix that ends the component is cut off unless
  it is the whole component, and a suffix that the component itself ends gives the component
  with the path's trailing slashes (Node's scan then never sets the end index).
\<close>

definition path_basename :: "string \<Rightarrow> string \<Rightarrow> string" where
  "path_basename p suffix =
     (let comp = last_component p;
          trail = takeWhile (\<lambda>c. c = CHR ''/'') (rev p)
      in if suffix \<noteq> [] \<and> length suffix \<le> length p then
           (if suffix = p then []
            else if ends_with comp suffix then
              (if suffix = comp then comp else take (length comp - length suffix) comp)
            else if ends_with suffix comp then comp @ trail
            else comp)
         else comp)"

subsection \<open>Format detection\<close>

text \<open>
  \<open>toLowerCase\<close> on the ASCII letters: \<open>A\<close>..\<open>Z\<close> (codes 65 to 90) get bit 5 set, which
  adds 32.
\<close>

definition to_lower :: "char \<Rightarrow> char" where
  "to_lower c =
     (case c of Char b0 b1 b2 b3 b4 b5 b6 b7 \<Rightarrow>
        if 65 \<le> (of_char c :: nat) \<and> (of_char c :: nat) \<le> 90
        then Char b0 b1 b2 b3 b4 True b6 b7 else c)"

definition toLowerCase :: "string \<Rightarrow> string" where
  "toLowerCase s = map to_lower s"

definition detectFormat :: "string \<Rightarrow> string" where
  "detectFormat filePath =
     (let ext = toLowerCase (path_extname filePath) in
      if ext = ''.pdf'' then ''pdf''
      else if ext = ''.docx'' then ''docx''
      else if ext = ''.html'' \<or> ext = ''.htm'' then ''html''
      else if ext = ''.md'' \<or> ext = ''.markdown'' then ''md''
      else if ext = ''.txt'' then ''txt''
      else ''unknown'')"

subsection \<open>Errors, the file system and the trace of calls\<close>

text \<open>
  Every exception the code can meet is a constructor: the errors of the file system (with
  the path of the failed call), the four errors \<open>DocumentConverter\<close> throws itself (in the
  order of the source: \<open>File size exceeds maximum limit of N bytes\<close>,
  \<open>Unsupported file format: F\<close>, \<open>Unsupported output format: F\<close>,
  \<open>Conversion to F not implemented\<close>), an error thrown by a third-party library, and the
  \<open>SyntaxError\<close> of the \<open>RegExp\<close> constructor.
\<close>

datatype errno = ENOENT | ENOTDIR | EISDIR | EEXIST

datatype error =
    FsError errno string
  | FileSizeExceeded int
  | UnsupportedFileFormat string
  | UnsupportedOutputFormat string
  | ConversionNotImplemented string
  | LibraryError string
  | RegExpSyntaxError string

datatype node = File string | Dir

datatype library = PdfParse | Mammoth | Jsdom | Marked | Turndown | HtmlPdfNode

datatype event =
    Stat string
  | ReadFile string
  | Readdir string
  | EnsureDir string
  | WriteFile string string
  | Call library

text \<open>
  The file system is a list of entries in listing order, keyed by the resolved path (the
  names from the root down); the root itself is the empty key and always a directory. There
  are no symbolic links, permissions or other processes. A file holds its bytes, and its size
  is their number.
\<close>

record world =
  entries :: "(string list \<times> node) list"
  cwd :: "string list"
  trace :: "event list"

record stats =
  isFile :: bool
  fsize :: nat

type_synonym 'a io = "world \<Rightarrow> (error + 'a) \<times> world"

definition log :: "event \<Rightarrow> world \<Rightarrow> world" where
  "log e w = w\<lparr>trace := trace w @ [e]\<rparr>"

text \<open>
  Resolving a path: from the root for an absolute path, from the working directory otherwise,
  one segment at a time; \<open>..\<close> steps to the parent, and the parent of the root is the root.
\<close>

definition walk :: "string list \<Rightarrow> string \<Rightarrow> string list" where
  "walk k seg =
     (if seg = [] \<or> seg = ''.'' then k else if seg = ''..'' then butlast k else k @ [seg])"

definition resolve :: "string list \<Rightarrow> string \<Rightarrow> string list" where
  "resolve wd p = foldl walk (if is_absolute p then [] else wd) (split_path p)"

definition node_at :: "world \<Rightarrow> string list \<Rightarrow> node option" where
  "node_at w k = (if k = [] then Some Dir else map_of (entries w) k)"

definition lookup_path :: "world \<Rightarrow> string \<Rightarrow> error + node" where
  "lookup_path w p =
     (if p = [] then Inl (FsError ENOENT p)
      else case node_at w (resolve (cwd w) p) of
             None \<Rightarrow> Inl (FsError ENOENT p)
           | Some Dir \<Rightarrow> Inr Dir
           | Some (File b) \<Rightarrow>
               if trailing_slash p then Inl (FsError ENOTDIR p) else Inr (File b))"

fun stats_of :: "node \<Rightarrow> stats" where
  "stats_of (File b) = \<lparr>isFile = True, fsize = length b\<rparr>"
| "stats_of Dir = \<lparr>isFile = False, fsize = 4096\<rparr>"

definition fs_stat :: "string \<Rightarrow> stats io" where
  "fs_stat p w =
     (case lookup_path w p of Inl e \<Rightarrow> Inl e | Inr n \<Rightarrow> Inr (stats_of n), log (Stat p) w)"

definition fs_readFile :: "string \<Rightarrow> string io" where
  "fs_readFile p w =
     (case lookup_path w p of
        Inl e \<Rightarrow> Inl e
      | Inr Dir \<Rightarrow> Inl (FsError EISDIR p)
      | Inr (File b) \<Rightarrow> Inr b,
      log (ReadFile p) w)"

definition children :: "(string list \<times> node) list \<Rightarrow> string list \<Rightarrow> string list" where
  "children al k = map (\<lambda>(q, n). last q) (filter (\<lambda>(q, n). q \<noteq> [] \<and> butlast q = k) al)"

definition fs_readdir :: "string \<Rightarrow> string list io" where
  "fs_readdir p w =
     (case lookup_path w p of
        Inl e \<Rightarrow> Inl e
      | Inr (File b) \<Rightarrow> Inl (FsError ENOTDIR p)
      | Inr Dir \<Rightarrow> Inr (children (entries w) (resolve (cwd w) p)),
      log (Readdir p) w)"

text \<open>
  \<open>fs.ensureDir\<close> of fs-extra is \<open>mkdir -p\<close>: it creates the directory and every missing
  ancestor, leaves existing directories alone, and fails when a file is in the way.
\<close>

definition prefixes_of :: "string list \<Rightarrow> string list list" where
  "prefixes_of k = map (\<lambda>n. take n k) [1..<Suc (length k)]"

definition mkdir :: "(string list \<times> node) list \<Rightarrow> string list \<Rightarrow> (string list \<times> node) list" where
  "mkdir al q = (if map_of al q = None then al @ [(q, Dir)] else al)"

fun is_file_node :: "node option \<Rightarrow> bool" where
  "is_file_node (Some (File b)) = True"
| "is_file_node _ = False"

definition fs_ensureDir :: "string \<Rightarrow> unit io" where
  "fs_ensureDir p w =
     (let k = resolve (cwd w) p; w1 = log (EnsureDir p) w in
      if p = [] then (Inl (FsError ENOENT p), w1)
      else if is_file_node (node_at w k) then (Inl (FsError EEXIST p), w1)
      else if list_ex (\<lambda>q. is_file_node (node_at w q)) (prefixes_of k)
        then (Inl (FsError ENOTDIR p), w1)
      else (Inr (), w1\<lparr>entries := foldl mkdir (entries w) (prefixes_of k)\<rparr>))"

text \<open>
  \<open>fs.writeFile\<close> creates or replaces a regular file; the directory it is in must exist.
\<close>

definition fs_writeFile :: "string \<Rightarrow> string \<Rightarrow> unit io" where
  "fs_writeFile p bytes w =
     (let k = resolve (cwd w) p; w1 = log (WriteFile p bytes) w in
      if p = [] then (Inl (FsError ENOENT p), w1)
      else if node_at w k = Some Dir then (Inl (FsError EISDIR p), w1)
      else if trailing_slash p then
        (Inl (FsError (if node_at w k = None then EISDIR else ENOTDIR) p), w1)
      else if is_file_node (node_at w (butlast k)) then (Inl (FsError ENOTDIR p), w1)
      else if node_at w (butlast k) = None then (Inl (FsError ENOENT p), w1)
      else (Inr (), w1\<lparr>entries := AList.update k (File bytes) (entries w)\<rparr>))"

subsection \<open>The third-party libraries\<close>

text \<open>
  The libraries the code imports are no part of the repository; the model takes them as
  parameters. Each may throw, with a message. \<open>utf8_decode\<close> and \<open>utf8_encode\<close> are what
  \<open>fs.readFile\<close> and \<open>fs.writeFile\<close> do under the encoding \<open>utf-8\<close>; \<open>pdfParse\<close> gives text,
  page count and info; \<open>extractRawText\<close> (mammoth) gives value and messages; \<open>jsdom\<close> gives
  the text content of the body (if there is a body) and the document title; \<open>generatePdf\<close> is
  html-pdf-node with the fixed options of the source; \<open>regexp_test pat s\<close> is
  \<open>new RegExp(pat, 'i').test(s)\<close>, which throws on a malformed pattern.
\<close>

record libs =
  utf8_decode :: "string \<Rightarrow> string"
  utf8_encode :: "string \<Rightarrow> string"
  pdfParse :: "string \<Rightarrow> string + (string \<times> nat \<times> string)"
  extractRawText :: "string \<Rightarrow> string + (string \<times> string list)"
  jsdom :: "string \<Rightarrow> string + (string option \<times> string)"
  marked :: "string \<Rightarrow> string + string"
  turndown :: "string \<Rightarrow> string + string"
  generatePdf :: "string \<Rightarrow> string + string"
  regexp_test :: "string \<Rightarrow> string \<Rightarrow> string + bool"

subsection \<open>Configuration and documents\<close>

text \<open>
  \<open>configSchema\<close>. \<open>max_file_size\<close> is a JavaScript number; it is compared with a file size
  only, and is taken as an integer (negative values are not excluded by the schema).
\<close>

record Config =
  debug :: bool
  max_file_size :: int
  supported_formats_input :: "string list"
  supported_formats_output :: "string list"
  preserve_formatting :: bool
  output_directory :: string
  smithery_api_key :: "string option"

datatype metadata =
    PdfMetadata nat string
  | DocxMetadata "string list"
  | HtmlMetadata string

record document =
  content :: string
  format :: string
  metadata :: "metadata option"

subsection \<open>\<open>DocumentConverter\<close>: reading\<close>

text \<open>
  \<open>fs.readFile(path, 'utf-8')\<close> and \<open>fs.writeFile(path, content, 'utf-8')\<close>: the bytes of
  the file decoded to text, and the text encoded to the bytes written. Every call of a library
  is recorded in the trace, whether it throws or not.
\<close>

definition fs_readText :: "libs \<Rightarrow> string \<Rightarrow> string io" where
  "fs_readText L p w =
     (case fs_readFile p w of
        (Inl e, w1) \<Rightarrow> (Inl e, w1)
      | (Inr bytes, w1) \<Rightarrow> (Inr (utf8_decode L bytes), w1))"

definition fs_writeText :: "libs \<Rightarrow> string \<Rightarrow> string \<Rightarrow> unit io" where
  "fs_writeText L p txt w = fs_writeFile p (utf8_encode L txt) w"

definition readPDF :: "libs \<Rightarrow> string \<Rightarrow> document io" where
  "readPDF L filePath w =
     (case fs_readFile filePath w of
        (Inl e, w1) \<Rightarrow> (Inl e, w1)
      | (Inr buffer, w1) \<Rightarrow>
          (case pdfParse L buffer of
             Inl msg \<Rightarrow> (Inl (LibraryError msg), log (Call PdfParse) w1)
           | Inr (txt, numpages, info) \<Rightarrow>
               (Inr \<lparr>content = txt, format = ''pdf'',
                     metadata = Some (PdfMetadata numpages info)\<rparr>,
                log (Call PdfParse) w1)))"

definition readDOCX :: "libs \<Rightarrow> string \<Rightarrow> document io" where
  "readDOCX L filePath w =
     (case fs_readFile filePath w of
        (Inl e, w1) \<Rightarrow> (Inl e, w1)
      | (Inr buffer, w1) \<Rightarrow>
          (case extractRawText L buffer of
             Inl msg \<Rightarrow> (Inl (LibraryError msg), log (Call Mammoth) w1)
           | Inr (val, messages) \<Rightarrow>
               (Inr \<lparr>content = val, format = ''docx'',
                     metadata = Some (DocxMetadata messages)\<rparr>,
                log (Call Mammoth) w1)))"

text \<open>
  \<open>readHTML\<close>: \<open>body?.textContent || content\<close> falls back to the raw file content when there
  is no body and also when the body's text is the empty string.
\<close>

definition readHTML :: "libs \<Rightarrow> string \<Rightarrow> document io" where
  "readHTML L filePath w =
     (case fs_readText L filePath w of
        (Inl e, w1) \<Rightarrow> (Inl e, w1)
      | (Inr raw, w1) \<Rightarrow>
          (case jsdom L raw of
             Inl msg \<Rightarrow> (Inl (LibraryError msg), log (Call Jsdom) w1)
           | Inr (body, title) \<Rightarrow>
               (Inr \<lparr>content = (case body of None \<Rightarrow> raw
                                  | Some t \<Rightarrow> if t = [] then raw else t),
                     format = ''html'',
                     metadata = Some (HtmlMetadata title)\<rparr>,
                log (Call Jsdom) w1)))"

definition readMarkdown :: "libs \<Rightarrow> string \<Rightarrow> document io" where
  "readMarkdown L filePath w =
     (case fs_readText L filePath w of
        (Inl e, w1) \<Rightarrow> (Inl e, w1)
      | (Inr c, w1) \<Rightarrow> (Inr \<lparr>content = c, format = ''md'', metadata = None\<rparr>, w1))"

definition readText :: "libs \<Rightarrow> string \<Rightarrow> document io" where
  "readText L filePath w =
     (case fs_readText L filePath w of
        (Inl e, w1) \<Rightarrow> (Inl e, w1)
      | (Inr c, w1) \<Rightarrow> (Inr \<lparr>content = c, format = ''txt'', metadata = None\<rparr>, w1))"

definition readDocument :: "libs \<Rightarrow> Config \<Rightarrow> string \<Rightarrow> document io" where
  "readDocument L cfg filePath w =
     (let fmt = detectFormat filePath in
      case fs_stat filePath w of
        (Inl e, w1) \<Rightarrow> (Inl e, w1)
      | (Inr st, w1) \<Rightarrow>
          if int (fsize st) > max_file_size cfg
          then (Inl (FileSizeExceeded (max_file_size cfg)), w1)
          else if fmt = ''pdf'' then readPDF L filePath w1
          else if fmt = ''docx'' then readDOCX L filePath w1
          else if fmt = ''html'' then readHTML L filePath w1
          else if fmt = ''md'' then readMarkdown L filePath w1
          else if fmt = ''txt'' then readText L filePath w1
          else (Inl (UnsupportedFileFormat fmt), w1))"

subsection \<open>\<open>DocumentConverter\<close>: converting\<close>

definition replace_newlines :: "string \<Rightarrow> string" where
  "replace_newlines s = concat (map (\<lambda>c. if c = CHR 0x0A then ''<br>'' else [c]) s)"

definition convertToHTML :: "libs \<Rightarrow> string \<Rightarrow> string \<Rightarrow> string io" where
  "convertToHTML L c fromFormat w =
     (if fromFormat = ''md'' then
        (case marked L c of
           Inl msg \<Rightarrow> (Inl (LibraryError msg), log (Call Marked) w)
         | Inr html \<Rightarrow> (Inr html, log (Call Marked) w))
      else if fromFormat = ''txt'' then (Inr (''<html><body><pre>'' @ c @ ''</pre></body></html>''), w)
      else if fromFormat = ''html'' then (Inr c, w)
      else (Inr (''<html><body><p>'' @ replace_newlines c @ ''</p></body></html>''), w))"

definition convertToMarkdown :: "libs \<Rightarrow> string \<Rightarrow> string \<Rightarrow> string io" where
  "convertToMarkdown L c fromFormat w =
     (if fromFormat = ''html'' then
        (case turndown L c of
           Inl msg \<Rightarrow> (Inl (LibraryError msg), log (Call Turndown) w)
         | Inr md \<Rightarrow> (Inr md, log (Call Turndown) w))
      else if fromFormat = ''md'' then (Inr c, w)
      else (Inr c, w))"

definition convertToPDF :: "libs \<Rightarrow> string \<Rightarrow> string \<Rightarrow> string \<Rightarrow> string io" where
  "convertToPDF L c fromFormat outputPath w =
     (case (if fromFormat = ''html'' then (Inr c, w) else convertToHTML L c fromFormat w) of
        (Inl e, w1) \<Rightarrow> (Inl e, w1)
      | (Inr htmlContent, w1) \<Rightarrow>
          (case generatePdf L htmlContent of
             Inl msg \<Rightarrow> (Inl (LibraryError msg), log (Call HtmlPdfNode) w1)
           | Inr pdfBuffer \<Rightarrow>
               (case fs_writeFile outputPath pdfBuffer (log (Call HtmlPdfNode) w1) of
                  (Inl e, w2) \<Rightarrow> (Inl e, w2)
                | (Inr u, w2) \<Rightarrow> (Inr outputPath, w2))))"

text \<open>
  The destination of \<open>convertDocument\<close>, lines 207 and 208 of the source. The optional
  parameter is \<open>None\<close> when the caller passes nothing; \<open>outputPath || ...\<close> takes the default
  also when the caller passes the empty string.
\<close>

definition finalOutputPath :: "Config \<Rightarrow> string \<Rightarrow> string \<Rightarrow> string option \<Rightarrow> string" where
  "finalOutputPath cfg inputPath outputFormat outputPath =
     (let fileName = path_basename inputPath (path_extname inputPath) in
      case outputPath of
        Some p \<Rightarrow>
          if p \<noteq> [] then p
          else path_join (output_directory cfg) (fileName @ ''.'' @ outputFormat)
      | None \<Rightarrow> path_join (output_directory cfg) (fileName @ ''.'' @ outputFormat))"

text \<open>
  Lines 228 and 229 of the source, the common tail of the three textual targets: the converted
  content is written as UTF-8 text and the destination returned.
\<close>

definition write_converted :: "libs \<Rightarrow> string \<Rightarrow> (error + string) \<times> world \<Rightarrow> (error + string) \<times> world" where
  "write_converted L dest r =
     (case r of
        (Inl e, w1) \<Rightarrow> (Inl e, w1)
      | (Inr convertedContent, w1) \<Rightarrow>
          (case fs_writeText L dest convertedContent w1 of
             (Inl e, w2) \<Rightarrow> (Inl e, w2)
           | (Inr u, w2) \<Rightarrow> (Inr dest, w2)))"

definition convertDocument :: "libs \<Rightarrow> Config \<Rightarrow> string \<Rightarrow> string \<Rightarrow> string option \<Rightarrow> string io" where
  "convertDocument L cfg inputPath outputFormat outputPath w =
     (case readDocument L cfg inputPath w of
        (Inl e, w1) \<Rightarrow> (Inl e, w1)
      | (Inr doc, w1) \<Rightarrow>
          if outputFormat \<notin> set (supported_formats_output cfg)
          then (Inl (UnsupportedOutputFormat outputFormat), w1)
          else
            (case fs_ensureDir (output_directory cfg) w1 of
               (Inl e, w2) \<Rightarrow> (Inl e, w2)
             | (Inr u, w2) \<Rightarrow>
                 let dest = finalOutputPath cfg inputPath outputFormat outputPath in
                 if outputFormat = ''html'' then
                   write_converted L dest (convertToHTML L (content doc) (format doc) w2)
                 else if outputFormat = ''md'' then
                   write_converted L dest (convertToMarkdown L (content doc) (format doc) w2)
                 else if outputFormat = ''txt'' then
                   write_converted L dest (Inr (content doc), w2)
                 else if outputFormat = ''pdf'' then
                   convertToPDF L (content doc) (format doc) dest w2
                 else (Inl (ConversionNotImplemented outputFormat), w2)))"

subsection \<open>The tool handlers\<close>

text \<open>
  Each handler catches every exception and answers with a text built from its message; the
  model keeps the exception itself (\<open>Inl e\<close>) in place of the text. \<open>convert_document\<close>
  answers with the path \<open>convertDocument\<close> returned.
\<close>

definition convert_document :: "libs \<Rightarrow> Config \<Rightarrow> string \<Rightarrow> string \<Rightarrow> string option \<Rightarrow> string io" where
  "convert_document L cfg input_path output_format output_path w =
     convertDocument L cfg input_path output_format output_path w"

text \<open>
  \<open>get_document_info\<close>: the size is kept in bytes (the source prints it in KB with two
  decimals); the modification time is not modelled.
\<close>

record document_info =
  info_format :: string
  info_size :: nat
  content_length :: nat
  info_metadata :: "metadata option"

definition get_document_info :: "libs \<Rightarrow> Config \<Rightarrow> string \<Rightarrow> document_info io" where
  "get_document_info L cfg file_path w =
     (case readDocument L cfg file_path w of
        (Inl e, w1) \<Rightarrow> (Inl e, w1)
      | (Inr doc, w1) \<Rightarrow>
          (case fs_stat file_path w1 of
             (Inl e, w2) \<Rightarrow> (Inl e, w2)
           | (Inr st, w2) \<Rightarrow>
               (Inr \<lparr>info_format = format doc, info_size = fsize st,
                     content_length = length (content doc),
                     info_metadata = metadata doc\<rparr>, w2)))"

text \<open>\<open>file_pattern.replace('*', '.*')\<close>: a string pattern replaces the first occurrence only.\<close>

fun replace_first_star :: "string \<Rightarrow> string" where
  "replace_first_star [] = []"
| "replace_first_star (c # cs) = (if c = CHR ''*'' then ''.*'' @ cs else c # replace_first_star cs)"

text \<open>
  Lines 385 to 389: without a pattern (or with the empty string, which is falsy) every file
  passes; otherwise the file passes when the regular expression built from the pattern,
  case-insensitive, is found in its name.
\<close>

definition file_matches :: "libs \<Rightarrow> string option \<Rightarrow> string \<Rightarrow> error + bool" where
  "file_matches L file_pattern file =
     (case file_pattern of
        None \<Rightarrow> Inr True
      | Some fp \<Rightarrow>
          if fp = [] then Inr True
          else (case regexp_test L (replace_first_star fp) file of
                  Inl msg \<Rightarrow> Inl (RegExpSyntaxError msg)
                | Inr b \<Rightarrow> Inr b))"

text \<open>
  The loop of \<open>batch_convert\<close> over the listing. \<open>results\<close> and \<open>errors\<close> are the two arrays
  of the source; an entry of \<open>results\<close> is the file and the base name of the written path, an
  entry of \<open>errors\<close> the file and the exception. A failing \<open>fs.stat\<close> or a malformed pattern
  is not caught per file: it leaves the loop and fails the whole batch.
\<close>

fun batch_loop ::
  "libs \<Rightarrow> Config \<Rightarrow> string \<Rightarrow> string \<Rightarrow> string option \<Rightarrow> string list \<Rightarrow>
   (string \<times> string) list \<Rightarrow> (string \<times> error) list \<Rightarrow>
   ((string \<times> string) list \<times> (string \<times> error) list) io" where
  "batch_loop L cfg input_directory output_format file_pattern [] results errors w =
     (Inr (results, errors), w)"
| "batch_loop L cfg input_directory output_format file_pattern (file # files) results errors w =
     (let filePath = path_join input_directory file in
      case fs_stat filePath w of
        (Inl e, w1) \<Rightarrow> (Inl e, w1)
      | (Inr st, w1) \<Rightarrow>
          if \<not> isFile st then
            batch_loop L cfg input_directory output_format file_pattern files results errors w1
          else
            (case file_matches L file_pattern file of
               Inl e \<Rightarrow> (Inl e, w1)
             | Inr matched \<Rightarrow>
                 if \<not> matched then
                   batch_loop L cfg input_directory output_format file_pattern files results errors w1
                 else
                   (case convertDocument L cfg filePath output_format None w1 of
                      (Inr result, w2) \<Rightarrow>
                        batch_loop L cfg input_directory output_format file_pattern files
                          (results @ [(file, path_basename result [])]) errors w2
                    | (Inl e, w2) \<Rightarrow>
                        batch_loop L cfg input_directory output_format file_pattern files
                          results (errors @ [(file, e)]) w2)))"

text \<open>
  The summary: the two counts, then the lines of the successful conversions, then the lines
  of the failed ones.
\<close>

record batch_summary =
  successfully_converted :: nat
  failed :: nat
  successful_conversions :: "(string \<times> string) list"
  failed_conversions :: "(string \<times> error) list"

definition batch_convert :: "libs \<Rightarrow> Config \<Rightarrow> string \<Rightarrow> string \<Rightarrow> string option \<Rightarrow> batch_summary io" where
  "batch_convert L cfg input_directory output_format file_pattern w =
     (case fs_readdir input_directory w of
        (Inl e, w1) \<Rightarrow> (Inl e, w1)
      | (Inr files, w1) \<Rightarrow>
          (case batch_loop L cfg input_directory output_format file_pattern files [] [] w1 of
             (Inl e, w2) \<Rightarrow> (Inl e, w2)
           | (Inr (results, errors), w2) \<Rightarrow>
               (Inr \<lparr>successfully_converted = length results, failed = length errors,
                     successful_conversions = results, failed_conversions = errors\<rparr>, w2)))"

text \<open>The per-file lines of the summary, in the order the summary prints them.\<close>

datatype outcome = Converted string string | Failed string error

definition summary_outcomes :: "batch_summary \<Rightarrow> outcome list" where
  "summary_outcomes r =
     map (\<lambda>(f, d). Converted f d) (successful_conversions r) @
     map (\<lambda>(f, e). Failed f e) (failed_conversions r)"

fun outcome_file :: "outcome \<Rightarrow> string" where
  "outcome_file (Converted f d) = f"
| "outcome_file (Failed f e) = f"

subsection \<open>JavaScript regular expressions, on the patterns a glob turns into\<close>

text \<open>
  \<open>new RegExp(pat, 'i').test(s)\<close> for patterns made of literal characters, the dot and the
  star: the dot is any character but a line terminator, a star repeats the atom before it (a
  star with no atom before it is the syntax error \<open>Nothing to repeat\<close>), letters match in
  either case, and \<open>test\<close> searches: the match may start anywhere in \<open>s\<close> and end anywhere.
  A pattern with any other special character is outside this model (\<open>None\<close>).
\<close>

datatype rx_atom = AnyChar | Lit char

datatype rx_item = One rx_atom | Star rx_atom

definition rx_special :: "char \<Rightarrow> bool" where
  "rx_special c = (c \<in> set [CHR 0x5C, CHR ''^'', CHR ''$'', CHR ''+'', CHR ''?'', CHR ''('',
                             CHR '')'', CHR ''['', CHR '']'', CHR ''{'', CHR ''}'', CHR ''|''])"

definition rx_atom_of :: "char \<Rightarrow> rx_atom" where
  "rx_atom_of c = (if c = CHR ''.'' then AnyChar else Lit c)"

definition rx_cons :: "rx_item \<Rightarrow> (string + rx_item list) option \<Rightarrow> (string + rx_item list) option" where
  "rx_cons i r =
     (case r of None \<Rightarrow> None | Some (Inl msg) \<Rightarrow> Some (Inl msg) | Some (Inr is) \<Rightarrow> Some (Inr (i # is)))"

fun rx_compile :: "string \<Rightarrow> (string + rx_item list) option" where
  "rx_compile [] = Some (Inr [])"
| "rx_compile [c] =
     (if rx_special c then None
      else if c = CHR ''*'' then Some (Inl ''Nothing to repeat'')
      else Some (Inr [One (rx_atom_of c)]))"
| "rx_compile (c # d # ds) =
     (if rx_special c then None
      else if c = CHR ''*'' then Some (Inl ''Nothing to repeat'')
      else if d = CHR ''*'' then rx_cons (Star (rx_atom_of c)) (rx_compile ds)
      else rx_cons (One (rx_atom_of c)) (rx_compile (d # ds)))"

fun atom_matches :: "rx_atom \<Rightarrow> char \<Rightarrow> bool" where
  "atom_matches AnyChar c = (c \<noteq> CHR 0x0A \<and> c \<noteq> CHR 0x0D)"
| "atom_matches (Lit a) c = (to_lower a = to_lower c)"

fun rx_match_here :: "rx_item list \<Rightarrow> string \<Rightarrow> bool" where
  "rx_match_here [] s = True"
| "rx_match_here (One a # r) [] = False"
| "rx_match_here (One a # r) (c # cs) = (atom_matches a c \<and> rx_match_here r cs)"
| "rx_match_here (Star a # r) [] = rx_match_here r []"
| "rx_match_here (Star a # r) (c # cs) =
     (rx_match_here r (c # cs) \<or> (atom_matches a c \<and> rx_match_here (Star a # r) cs))"

fun rx_search :: "rx_item list \<Rightarrow> string \<Rightarrow> bool" where
  "rx_search r [] = rx_match_here r []"
| "rx_search r (c # cs) = (rx_match_here r (c # cs) \<or> rx_search r cs)"

definition js_regexp_test :: "string \<Rightarrow> string \<Rightarrow> (string + bool) option" where
  "js_regexp_test pat s =
     (case rx_compile pat of
        None \<Rightarrow> None
      | Some (Inl msg) \<Rightarrow> Some (Inl msg)
      | Some (Inr r) \<Rightarrow> Some (Inr (rx_search r s)))"

text \<open>A library record follows JavaScript when its \<open>regexp_test\<close> agrees with the model.\<close>

definition regexp_conforms :: "libs \<Rightarrow> bool" where
  "regexp_conforms L = (\<forall>pat s r. js_regexp_test pat s = Some r \<longrightarrow> regexp_test L pat s = r)"

subsection \<open>The glob match of the specification\<close>

text \<open>
  The specification's rule for \<open>filePattern\<close>, in its words: a case-insensitive match rule
  with glob-style wildcard semantics, where \<open>*\<close> matches any substring and the rest is matched
  literally. The whole name is matched.
\<close>

fun spec_glob_match :: "string \<Rightarrow> string \<Rightarrow> bool" where
  "spec_glob_match [] s = (s = [])"
| "spec_glob_match (p # ps) [] = (p = CHR ''*'' \<and> spec_glob_match ps [])"
| "spec_glob_match (p # ps) (c # cs) =
     (if p = CHR ''*'' then spec_glob_match ps (c # cs) \<or> spec_glob_match (p # ps) cs
      else to_lower p = to_lower c \<and> spec_glob_match ps cs)"

subsection \<open>The batch algorithm of the specification\<close>

text \<open>
  A name of a directory entry: not empty, not \<open>.\<close> or \<open>..\<close>, and without a slash. A world is
  well formed when every key is made of such names.
\<close>

definition valid_name :: "string \<Rightarrow> bool" where
  "valid_name n = (n \<noteq> [] \<and> n \<noteq> ''.'' \<and> n \<noteq> ''..'' \<and> CHR ''/'' \<notin> set n)"

definition wf_world :: "world \<Rightarrow> bool" where
  "wf_world w = list_all (\<lambda>(q, n). list_all valid_name q) (entries w)"

definition is_regular_file :: "world \<Rightarrow> string \<Rightarrow> bool" where
  "is_regular_file w p = (case fs_stat p w of (Inr st, w1) \<Rightarrow> isFile st | (Inl e, w1) \<Rightarrow> False)"

text \<open>The matched files of a listing: the regular files that pass the pattern.\<close>

definition matched_files :: "libs \<Rightarrow> string \<Rightarrow> string option \<Rightarrow> world \<Rightarrow> string list \<Rightarrow> string list" where
  "matched_files L input_directory file_pattern w files =
     filter (\<lambda>f. is_regular_file w (path_join input_directory f) \<and>
                 file_matches L file_pattern f = Inr True) files"

text \<open>
  The specification's algorithm (section 4.4 and the design notes), in its words: consider
  only regular files, skip the names the pattern does not match, invoke the conversion engine
  for each remaining file independently, and record every outcome, success or failure, in one
  sequence that preserves the enumeration order. No exception crosses the fold.
\<close>

fun spec_batch_outcomes ::
  "libs \<Rightarrow> Config \<Rightarrow> string \<Rightarrow> string \<Rightarrow> string option \<Rightarrow> string list \<Rightarrow> world \<Rightarrow>
   (string \<times> (error + string)) list" where
  "spec_batch_outcomes L cfg input_directory output_format file_pattern [] w = []"
| "spec_batch_outcomes L cfg input_directory output_format file_pattern (f # fs) w =
     (case fs_stat (path_join input_directory f) w of
        (Inl e, w1) \<Rightarrow> spec_batch_outcomes L cfg input_directory output_format file_pattern fs w1
      | (Inr st, w1) \<Rightarrow>
          if isFile st \<and> file_matches L file_pattern f = Inr True then
            (case convertDocument L cfg (path_join input_directory f) output_format None w1 of
               (r, w2) \<Rightarrow>
                 (f, r) # spec_batch_outcomes L cfg input_directory output_format file_pattern fs w2)
          else spec_batch_outcomes L cfg input_directory output_format file_pattern fs w1)"

definition converted_of :: "(string \<times> (error + string)) list \<Rightarrow> (string \<times> string) list" where
  "converted_of outs =
     concat (map (\<lambda>(f, r). case r of Inl e \<Rightarrow> [] | Inr d \<Rightarrow> [(f, path_basename d [])]) outs)"

definition failed_of :: "(string \<times> (error + string)) list \<Rightarrow> (string \<times> error) list" where
  "failed_of outs = concat (map (\<lambda>(f, r). case r of Inl e \<Rightarrow> [(f, e)] | Inr d \<Rightarrow> []) outs)"

text \<open>
  How a world may change under a call: the working directory stays, every file stays a file
  and every directory a directory, and a directory that is new has one of the keys \<open>K\<close>.
\<close>

definition evolves :: "string list list \<Rightarrow> world \<Rightarrow> world \<Rightarrow> bool" where
  "evolves K w w' =
     (cwd w' = cwd w \<and>
      (\<forall>k. is_file_node (node_at w k) \<longrightarrow> is_file_node (node_at w' k)) \<and>
      (\<forall>k. node_at w k = Some Dir \<longrightarrow> node_at w' k = Some Dir) \<and>
      (\<forall>k. node_at w' k = Some Dir \<longrightarrow> node_at w k = Some Dir \<or> k \<in> set K))"

text \<open>
  A call that leaves every file alone, but for the files with a key among \<open>K\<close>.
\<close>

definition keeps_files :: "string list list \<Rightarrow> world \<Rightarrow> world \<Rightarrow> bool" where
  "keeps_files K w w' =
     (cwd w' = cwd w \<and>
      (\<forall>k. is_file_node (node_at w k) \<and> k \<notin> set K \<longrightarrow> node_at w' k = node_at w k))"


text \<open>Segments as normalisation leaves them: none is empty or \<open>.\<close>.\<close>

definition clean :: "string list \<Rightarrow> bool" where
  "clean segs = (\<forall>s \<in> set segs. s \<noteq> [] \<and> s \<noteq> ''.'')"

subsection \<open>A small world for the examples\<close>

text \<open>
  Stand-ins for the libraries (the encodings are the identity, \<open>marked\<close> wraps a paragraph,
  a PDF is recognised by its first four bytes), a configuration with a limit of ten bytes, and
  a working directory \<open>/app\<close> with an input directory \<open>in\<close>.
\<close>

definition sample_libs :: libs where
  "sample_libs =
     \<lparr>utf8_decode = (\<lambda>b. b), utf8_encode = (\<lambda>t. t),
      pdfParse = (\<lambda>b. if take 4 b = ''%PDF'' then Inr (drop 4 b, 1, [])
                        else Inl ''Invalid PDF structure''),
      extractRawText = (\<lambda>b. Inr (b, [])),
      jsdom = (\<lambda>h. Inr (Some h, [])),
      marked = (\<lambda>m. Inr (''<p>'' @ m @ ''</p>'')),
      turndown = (\<lambda>h. Inr h),
      generatePdf = (\<lambda>h. Inr (''%PDF'' @ h)),
      regexp_test = (\<lambda>pat s. case js_regexp_test pat s of
                                Some r \<Rightarrow> r | None \<Rightarrow> Inl ''Invalid regular expression'')\<rparr>"

definition sample_config :: Config where
  "sample_config =
     \<lparr>debug = False, max_file_size = 10,
      supported_formats_input = [''pdf'', ''docx'', ''html'', ''md'', ''txt''],
      supported_formats_output = [''pdf'', ''docx'', ''html'', ''md'', ''txt''],
      preserve_formatting = True, output_directory = ''./out'', smithery_api_key = None\<rparr>"

definition sample_world :: world where
  "sample_world =
     \<lparr>entries =
        [([''app''], Dir), ([''app'', ''in''], Dir),
         ([''app'', ''in'', ''bad.xyz''], File ''x''),
         ([''app'', ''in'', ''good.md''], File ''# Hi''),
         ([''app'', ''in'', ''sub''], Dir),
         ([''app'', ''in'', ''big.txt''], File ''01234567890''),
         ([''app'', ''in'', ''full.txt''], File ''0123456789''),
         ([''app'', ''in'', ''good.txt''], File ''Hello'')],
      cwd = [''app''], trace = []\<rparr>"

subsection \<open>UTF-8 decoding with replacement\<close>

text \<open>
  What \<open>fs.readFile(path, 'utf-8')\<close> does to bytes that are not UTF-8. A text is
  represented here by its own UTF-8 encoding, so that encoding a text is the identity and
  decoding keeps every well-formed sequence as it is. The decoder is the one of the Encoding
  standard: after a lead byte it expects continuation bytes within \<open>lower\<close> and \<open>upper\<close>; a
  byte that cannot start a sequence, a sequence cut short by a byte out of range (that byte is
  then read again as a first byte) and a sequence cut short by the end of the input each
  become U+FFFD, whose encoding is \<open>EF BF BD\<close>.
\<close>

definition utf8_replacement :: string where
  "utf8_replacement = [CHR 0xEF, CHR 0xBF, CHR 0xBD]"

fun utf8_scan :: "nat \<Rightarrow> nat \<Rightarrow> nat \<Rightarrow> string \<Rightarrow> string \<Rightarrow> string" where
  "utf8_scan needed lower upper pending [] = (if needed = 0 then [] else utf8_replacement)"
| "utf8_scan needed lower upper pending (b # bs) =
     (if needed = 0 then
        (if (of_char b :: nat) \<le> 0x7F then b # utf8_scan 0 0x80 0xBF [] bs
         else if 0xC2 \<le> (of_char b :: nat) \<and> (of_char b :: nat) \<le> 0xDF
           then utf8_scan 1 0x80 0xBF [b] bs
         else if (of_char b :: nat) = 0xE0 then utf8_scan 2 0xA0 0xBF [b] bs
         else if (of_char b :: nat) = 0xED then utf8_scan 2 0x80 0x9F [b] bs
         else if 0xE1 \<le> (of_char b :: nat) \<and> (of_char b :: nat) \<le> 0xEF
           then utf8_scan 2 0x80 0xBF [b] bs
         else if (of_char b :: nat) = 0xF0 then utf8_scan 3 0x90 0xBF [b] bs
         else if (of_char b :: nat) = 0xF4 then utf8_scan 3 0x80 0x8F [b] bs
         else if 0xF1 \<le> (of_char b :: nat) \<and> (of_char b :: nat) \<le> 0xF3
           then utf8_scan 3 0x80 0xBF [b] bs
         else utf8_replacement @ utf8_scan 0 0x80 0xBF [] bs)
      else if lower \<le> (of_char b :: nat) \<and> (of_char b :: nat) \<le> upper then
        (if needed = 1 then pending @ [b] @ utf8_scan 0 0x80 0xBF [] bs
         else utf8_scan (needed - 1) 0x80 0xBF (pending @ [b]) bs)
      else utf8_replacement @ utf8_scan 0 0x80 0xBF [] (b # bs))"

definition node_utf8_decode :: "string \<Rightarrow> string" where
  "node_utf8_decode bytes = utf8_scan 0 0x80 0xBF [] bytes"

text \<open>
  The libraries of the examples with this decoder, and a world with two Markdown files: one of
  the two bytes \<open>FF 41\<close>, which is not UTF-8, and one that is (\<open>C3 A9\<close> encodes U+00E9).
\<close>

definition node_libs :: libs where
  "node_libs = sample_libs\<lparr>utf8_decode := node_utf8_decode\<rparr>"

definition encodings_world :: world where
  "encodings_world =
     \<lparr>entries =
        [([''app''], Dir), ([''app'', ''in''], Dir),
         ([''app'', ''in'', ''latin.md''], File [CHR 0xFF, CHR 0x41]),
         ([''app'', ''in'', ''accent.md''], File [CHR 0x23, CHR 0x20, CHR 0xC3, CHR 0xA9])],
      cwd = [''app''], trace = []\<rparr>"

section \<open>Properties\<close>

subsection \<open>Paths\<close>

lemma split_path_not_Nil [simp]: "split_path p \<noteq> []"
  by (induction p) (auto split: list.splits)

lemma split_path_slash_free: "CHR ''/'' \<notin> set s \<Longrightarrow> split_path s = [s]"
  by (induction s) auto

lemma split_path_append:
  "split_path (a @ CHR ''/'' # b) = split_path a @ split_path b"
  by (induction a) (auto split: list.splits)

lemma split_path_segments: "seg \<in> set (split_path p) \<Longrightarrow> CHR ''/'' \<notin> set seg"
  by (induction p arbitrary: seg) (auto split: if_splits list.splits)

lemma split_join_segs:
  "segs \<noteq> [] \<Longrightarrow> \<forall>s \<in> set segs. CHR ''/'' \<notin> set s \<Longrightarrow> split_path (join_segs segs) = segs"
proof (induction segs rule: join_segs.induct)
  case 1
  then show ?case by simp
next
  case (2 seg)
  then show ?case by (simp add: split_path_slash_free)
next
  case (3 seg v va)
  then show ?case by (simp add: split_path_append split_path_slash_free)
qed

lemma join_segs_snoc:
  "join_segs (segs @ [n]) = (if segs = [] then n else join_segs segs @ ''/'' @ n)"
  by (induction segs rule: join_segs.induct) auto

lemma norm_step_valid: "valid_name n \<Longrightarrow> norm_step b acc n = acc @ [n]"
  by (simp add: norm_step_def valid_name_def)

lemma norm_step_simps:
  "norm_step b acc [] = acc"
  "norm_step b acc ''.'' = acc"
  "norm_step b acc ''..'' =
     (if acc \<noteq> [] \<and> last acc \<noteq> ''..'' then butlast acc else if b then acc @ [''..''] else acc)"
  "seg \<noteq> [] \<Longrightarrow> seg \<noteq> ''.'' \<Longrightarrow> seg \<noteq> ''..'' \<Longrightarrow> norm_step b acc seg = acc @ [seg]"
  by (simp_all add: norm_step_def)

lemma walk_simps:
  "walk k [] = k"
  "walk k ''.'' = k"
  "walk k ''..'' = butlast k"
  "seg \<noteq> [] \<Longrightarrow> seg \<noteq> ''.'' \<Longrightarrow> seg \<noteq> ''..'' \<Longrightarrow> walk k seg = k @ [seg]"
  by (simp_all add: walk_def)

lemma walk_valid: "valid_name n \<Longrightarrow> walk k n = k @ [n]"
  by (simp add: walk_simps valid_name_def)

lemma norm_step_subset:
  "s \<in> set (norm_step b acc seg) \<Longrightarrow> s \<in> set acc \<or> (s = seg \<and> seg \<noteq> [] \<and> seg \<noteq> ''.'')"
proof -
  assume a: "s \<in> set (norm_step b acc seg)"
  consider "seg = [] \<or> seg = ''.''" | "seg = ''..''" | "seg \<noteq> [] \<and> seg \<noteq> ''.'' \<and> seg \<noteq> ''..''"
    by blast
  then show ?thesis
  proof cases
    case 1
    then have "norm_step b acc seg = acc" by (auto simp: norm_step_simps)
    then show ?thesis using a by simp
  next
    case 2
    have "set (norm_step b acc ''..'') \<subseteq> set acc \<union> {''..''}"
      using in_set_butlastD [of _ acc] by (auto simp: norm_step_simps(3))
    then show ?thesis using a 2 by auto
  next
    case 3
    then have "norm_step b acc seg = acc @ [seg]" by (simp add: norm_step_simps)
    then show ?thesis using a 3 by auto
  qed
qed

lemma clean_norm_step: "clean acc \<Longrightarrow> clean (norm_step b acc seg)"
  unfolding clean_def using norm_step_subset by blast

lemma clean_foldl_norm: "clean acc \<Longrightarrow> clean (foldl (norm_step b) acc xs)"
  by (induction xs arbitrary: acc) (simp_all add: clean_norm_step)

lemma no_dotdot_norm_step:
  "''..'' \<notin> set acc \<Longrightarrow> ''..'' \<notin> set (norm_step False acc seg)"
proof (cases "seg = ''..''")
  case True
  assume "''..'' \<notin> set acc"
  then show ?thesis using True in_set_butlastD [of "''..''" acc] by (auto simp: norm_step_simps(3))
next
  case False
  assume "''..'' \<notin> set acc"
  then show ?thesis using False norm_step_subset [of "''..''" False acc seg] by blast
qed

lemma no_dotdot_foldl_norm:
  "''..'' \<notin> set acc \<Longrightarrow> ''..'' \<notin> set (foldl (norm_step False) acc xs)"
  by (induction xs arbitrary: acc) (simp_all add: no_dotdot_norm_step)

lemma slash_free_norm_step:
  "\<forall>s \<in> set acc. CHR ''/'' \<notin> set s \<Longrightarrow> CHR ''/'' \<notin> set seg \<Longrightarrow>
   \<forall>s \<in> set (norm_step b acc seg). CHR ''/'' \<notin> set s"
  using norm_step_subset by blast

lemma slash_free_foldl_norm:
  "\<forall>s \<in> set acc. CHR ''/'' \<notin> set s \<Longrightarrow> \<forall>s \<in> set xs. CHR ''/'' \<notin> set s \<Longrightarrow>
   \<forall>s \<in> set (foldl (norm_step b) acc xs). CHR ''/'' \<notin> set s"
proof (induction xs arbitrary: acc)
  case Nil
  then show ?case by simp
next
  case (Cons x xs)
  have a: "\<forall>s \<in> set (norm_step b acc x). CHR ''/'' \<notin> set s"
    using Cons.prems by (intro slash_free_norm_step) simp_all
  have b: "\<forall>s \<in> set xs. CHR ''/'' \<notin> set s"
    using Cons.prems(2) by simp
  show ?case using Cons.IH [OF a b] by simp
qed

lemma foldl_walk_snoc_name:
  "m \<noteq> [] \<Longrightarrow> m \<noteq> ''.'' \<Longrightarrow> m \<noteq> ''..'' \<Longrightarrow> foldl walk acc (M @ [m]) = foldl walk acc M @ [m]"
  by (simp add: walk_simps)

lemma walk_after_norm_True:
  "foldl walk acc (foldl (norm_step True) [] xs) = foldl walk acc xs"
proof (induction xs rule: rev_induct)
  case Nil
  then show ?case by simp
next
  case (snoc x xs)
  define M where "M = foldl (norm_step True) [] xs"
  have cl: "clean M" unfolding M_def by (rule clean_foldl_norm) (simp add: clean_def)
  have IH: "foldl walk acc M = foldl walk acc xs" using snoc M_def by simp
  have step: "foldl (norm_step True) [] (xs @ [x]) = norm_step True M x"
    by (simp add: M_def)
  have goal: "foldl walk acc (norm_step True M x) = walk (foldl walk acc M) x"
  proof (cases "x = [] \<or> x = ''.''")
    case True
    then show ?thesis by (auto simp: norm_step_simps walk_simps)
  next
    case False
    note nx = this
    show ?thesis
    proof (cases "x = ''..''")
      case True
      note dd = this
      show ?thesis
      proof (cases "M \<noteq> [] \<and> last M \<noteq> ''..''")
        case True
        obtain M' m where M: "M = M' @ [m]"
          using True by (cases M rule: rev_cases) auto
        have m: "m \<noteq> ''..''" using True M by simp
        have mc: "m \<noteq> [] \<and> m \<noteq> ''.''" using cl M by (simp add: clean_def)
        have "foldl walk acc M = foldl walk acc M' @ [m]"
          unfolding M using mc m by (intro foldl_walk_snoc_name) auto
        then have "foldl walk acc M' = butlast (foldl walk acc M)" by simp
        moreover have "norm_step True M x = M'"
          using m dd M by (simp add: norm_step_simps)
        ultimately show ?thesis using dd by (simp add: walk_simps)
      next
        case False
        then have "norm_step True M x = M @ [''..'']"
          using dd by (auto simp: norm_step_simps)
        then show ?thesis using dd by simp
      qed
    next
      case False
      then have "norm_step True M x = M @ [x]" "walk (foldl walk acc M) x = foldl walk acc M @ [x]"
        using nx by (auto simp: norm_step_simps walk_simps)
      then show ?thesis using nx False by (simp add: walk_simps)
    qed
  qed
  show ?case using step goal IH by simp
qed

lemma walk_after_norm_False:
  "foldl walk [] (foldl (norm_step False) [] xs) = foldl walk [] xs"
proof (induction xs rule: rev_induct)
  case Nil
  then show ?case by simp
next
  case (snoc x xs)
  define M where "M = foldl (norm_step False) [] xs"
  have cl: "clean M" unfolding M_def by (rule clean_foldl_norm) (simp add: clean_def)
  have nd: "''..'' \<notin> set M" unfolding M_def by (rule no_dotdot_foldl_norm) simp
  have IH: "foldl walk [] M = foldl walk [] xs" using snoc M_def by simp
  have step: "foldl (norm_step False) [] (xs @ [x]) = norm_step False M x"
    by (simp add: M_def)
  have goal: "foldl walk [] (norm_step False M x) = walk (foldl walk [] M) x"
  proof (cases "x = [] \<or> x = ''.''")
    case True
    then show ?thesis by (auto simp: norm_step_simps walk_simps)
  next
    case False
    note nx = this
    show ?thesis
    proof (cases "x = ''..''")
      case True
      note dd = this
      show ?thesis
      proof (cases "M = []")
        case True
        then show ?thesis using dd by (simp add: norm_step_simps walk_simps)
      next
        case False
        obtain M' m where M: "M = M' @ [m]"
          using False by (cases M rule: rev_cases) auto
        have m: "m \<noteq> ''..''" using nd M by auto
        have mc: "m \<noteq> [] \<and> m \<noteq> ''.''" using cl M by (simp add: clean_def)
        have "foldl walk [] M = foldl walk [] M' @ [m]"
          unfolding M using mc m by (intro foldl_walk_snoc_name) auto
        then have "foldl walk [] M' = butlast (foldl walk [] M)" by simp
        moreover have "norm_step False M x = M'"
          using m dd M by (simp add: norm_step_simps)
        ultimately show ?thesis using dd by (simp add: walk_simps)
      qed
    next
      case False
      then have "norm_step False M x = M @ [x]"
        using nx by (auto simp: norm_step_simps)
      then show ?thesis using nx False by (simp add: walk_simps)
    qed
  qed
  show ?case using step goal IH by simp
qed


lemma foldl_walk_Nil_seg: "foldl walk k ([] # xs) = foldl walk k xs"
  by (simp add: walk_simps)

lemma foldl_walk_snoc_Nil: "foldl walk k (xs @ [[]]) = foldl walk k xs"
  by (simp add: walk_simps)

lemma join_segs_eq_Nil: "clean segs \<Longrightarrow> join_segs segs = [] \<longleftrightarrow> segs = []"
  by (induction segs rule: join_segs.induct) (auto simp: clean_def)

lemma hd_join_segs: "segs \<noteq> [] \<Longrightarrow> hd segs \<noteq> [] \<Longrightarrow> hd (join_segs segs) = hd (hd segs)"
  by (induction segs rule: join_segs.induct) auto

lemma clean_normalizeString: "clean (normalizeString b q)"
  unfolding normalizeString_def by (rule clean_foldl_norm) (simp add: clean_def)

lemma slash_free_normalizeString: "\<forall>s \<in> set (normalizeString b q). CHR ''/'' \<notin> set s"
  unfolding normalizeString_def
  by (rule slash_free_foldl_norm) (auto dest: split_path_segments)

lemma walk_normalizeString:
  "foldl walk (if is_absolute q then [] else wd) (normalizeString (\<not> is_absolute q) q) =
   foldl walk (if is_absolute q then [] else wd) (split_path q)"
  unfolding normalizeString_def
  by (cases "is_absolute q") (simp_all add: walk_after_norm_True walk_after_norm_False)

lemma resolve_path_normalize: "resolve wd (path_normalize q) = resolve wd q"
proof (cases "q = []")
  case True
  then show ?thesis
    by (simp add: resolve_def path_normalize_def is_absolute_def walk_simps)
next
  case False
  define N where "N = normalizeString (\<not> is_absolute q) q"
  have cl: "clean N" unfolding N_def by (rule clean_normalizeString)
  have sf: "\<forall>s \<in> set N. CHR ''/'' \<notin> set s" unfolding N_def by (rule slash_free_normalizeString)
  have key: "foldl walk (if is_absolute q then [] else wd) N = resolve wd q"
    unfolding N_def resolve_def by (rule walk_normalizeString)
  show ?thesis
  proof (cases "N = []")
    case True
    then have body: "join_segs N = []" by simp
    have out: "path_normalize q =
        (if is_absolute q then ''/'' else if trailing_slash q then ''./'' else ''.'')"
      using False body by (simp add: path_normalize_def N_def [symmetric])
    have "resolve wd (path_normalize q) = (if is_absolute q then [] else wd)"
      unfolding out by (simp add: resolve_def is_absolute_def walk_simps)
    then show ?thesis using key True by simp
  next
    case NN: False
    then have body: "join_segs N \<noteq> []" using cl by (simp add: join_segs_eq_Nil)
    have sp: "split_path (join_segs N) = N" using NN sf by (rule split_join_segs)
    have hdN: "hd N \<noteq> []" using cl NN by (cases N) (auto simp: clean_def)
    have hd_body: "hd (join_segs N) \<noteq> CHR ''/''"
    proof -
      have "hd (join_segs N) = hd (hd N)" using NN hdN by (rule hd_join_segs)
      moreover have "hd (hd N) \<in> set (hd N)" using hdN by simp
      moreover have "CHR ''/'' \<notin> set (hd N)" using sf NN by (cases N) auto
      ultimately show ?thesis by metis
    qed
    have out: "path_normalize q =
        (if is_absolute q then ''/'' else []) @ join_segs N @ (if trailing_slash q then ''/'' else [])"
      using False body by (simp add: path_normalize_def N_def [symmetric] Let_def)
    have abs: "is_absolute (path_normalize q) = is_absolute q"
      unfolding out using body hd_body by (auto simp: is_absolute_def)
    have segs: "foldl walk k (split_path (path_normalize q)) = foldl walk k N" for k
    proof -
      have "split_path (join_segs N @ (if trailing_slash q then ''/'' else [])) =
            N @ (if trailing_slash q then [[]] else [])"
        using sp split_path_append [of "join_segs N" "[]"] by simp
      then have "split_path (path_normalize q) =
            (if is_absolute q then [[]] else []) @ N @ (if trailing_slash q then [[]] else [])"
        unfolding out by simp
      then show ?thesis by (simp add: walk_simps)
    qed
    show ?thesis using key abs segs by (simp add: resolve_def)
  qed
qed

lemma valid_name_facts:
  assumes "valid_name n"
  shows "n \<noteq> [] \<and> CHR ''/'' \<notin> set n \<and> hd n \<noteq> CHR ''/'' \<and> last n \<noteq> CHR ''/''"
proof -
  have a: "n \<noteq> []" and b: "CHR ''/'' \<notin> set n"
    using assms by (simp_all add: valid_name_def)
  have "hd n \<in> set n" "last n \<in> set n" using a by simp_all
  then show ?thesis using a b by metis
qed

lemma resolve_name: "valid_name n \<Longrightarrow> resolve wd n = wd @ [n]"
  using valid_name_facts [of n]
  by (simp add: resolve_def is_absolute_def split_path_slash_free walk_valid)

lemma resolve_empty: "resolve wd [] = wd"
  by (simp add: resolve_def is_absolute_def walk_simps)

lemma resolve_slash_name:
  "valid_name n \<Longrightarrow> d \<noteq> [] \<Longrightarrow> resolve wd (d @ CHR ''/'' # n) = resolve wd d @ [n]"
  using valid_name_facts [of n]
  by (simp add: resolve_def is_absolute_def split_path_append split_path_slash_free walk_valid)

lemma resolve_path_join:
  assumes "valid_name n"
  shows "resolve wd (path_join d n) = resolve wd d @ [n]"
proof (cases "d = []")
  case True
  then show ?thesis
    using assms valid_name_facts [of n]
    by (simp add: path_join_def resolve_path_normalize resolve_name resolve_empty)
next
  case False
  then show ?thesis
    using assms valid_name_facts [of n]
    by (simp add: path_join_def resolve_path_normalize resolve_slash_name)
qed


lemma normalizeString_name: "valid_name n \<Longrightarrow> normalizeString b n = [n]"
  using valid_name_facts [of n]
  by (simp add: normalizeString_def split_path_slash_free norm_step_valid)

lemma normalizeString_slash_name:
  "valid_name n \<Longrightarrow> normalizeString b (d @ CHR ''/'' # n) = normalizeString b d @ [n]"
  using valid_name_facts [of n]
  by (simp add: normalizeString_def split_path_append split_path_slash_free norm_step_valid)

lemma path_join_shape:
  assumes v: "valid_name n"
  shows "\<exists>x. path_join d n = x @ n \<and> (x = [] \<or> last x = CHR ''/'')"
proof (cases "d = []")
  case True
  have "path_normalize n = n"
    using v valid_name_facts [of n]
    by (simp add: path_normalize_def normalizeString_name is_absolute_def trailing_slash_def)
  then have "path_join d n = [] @ n"
    using True v valid_name_facts [of n] by (simp add: path_join_def)
  then show ?thesis by blast
next
  case False
  define q where "q = d @ CHR ''/'' # n"
  define Nd where "Nd = normalizeString (\<not> is_absolute q) d"
  have N: "normalizeString (\<not> is_absolute q) q = Nd @ [n]"
    unfolding q_def Nd_def using v by (rule normalizeString_slash_name)
  have nt: "\<not> trailing_slash q"
    using v valid_name_facts [of n] by (simp add: trailing_slash_def q_def)
  have body: "join_segs (Nd @ [n]) = (if Nd = [] then n else join_segs Nd @ ''/'' @ n)"
    by (rule join_segs_snoc)
  have bne: "join_segs (Nd @ [n]) \<noteq> []"
    using v valid_name_facts [of n] by (simp add: body)
  have qne: "q \<noteq> []" by (simp add: q_def)
  have "path_normalize q =
      (if is_absolute q then ''/'' else []) @ join_segs (Nd @ [n]) @ (if trailing_slash q then ''/'' else [])"
    using bne qne by (simp add: path_normalize_def N Let_def)
  then have out: "path_normalize q =
      ((if is_absolute q then ''/'' else []) @ (if Nd = [] then [] else join_segs Nd @ ''/'')) @ n"
    using nt by (simp add: body)
  have "path_join d n = path_normalize q"
    using False v valid_name_facts [of n] by (simp add: path_join_def q_def)
  then have "path_join d n =
      ((if is_absolute q then ''/'' else []) @ (if Nd = [] then [] else join_segs Nd @ ''/'')) @ n"
    using out by simp
  moreover have "(if is_absolute q then ''/'' else []) @ (if Nd = [] then [] else join_segs Nd @ ''/'') = []
      \<or> last ((if is_absolute q then ''/'' else []) @ (if Nd = [] then [] else join_segs Nd @ ''/'')) = CHR ''/''"
    by simp
  ultimately show ?thesis by blast
qed




lemma path_join_not_empty: "valid_name n \<Longrightarrow> path_join d n \<noteq> []"
  using path_join_shape [of n d] valid_name_facts [of n] by auto

lemma path_join_no_trailing_slash: "valid_name n \<Longrightarrow> \<not> trailing_slash (path_join d n)"
  using path_join_shape [of n d] valid_name_facts [of n] by (auto simp: trailing_slash_def)

lemma last_component_slash_free: "CHR ''/'' \<notin> set (last_component p)"
  by (auto simp: last_component_def dest: set_takeWhileD)

lemma length_last_component: "length (last_component p) \<le> length p"
proof -
  have "length (last_component p) \<le> length (dropWhile (\<lambda>c. c = CHR ''/'') (rev p))"
    by (simp add: last_component_def length_takeWhile_le)
  also have "\<dots> \<le> length (rev p)" by (rule length_dropWhile_le)
  finally show ?thesis by simp
qed


lemma extname_splits_component:
  assumes "path_extname p \<noteq> []"
  shows "\<exists>r. r \<noteq> [] \<and> last_component p = r @ path_extname p"
proof -
  define comp where "comp = last_component p"
  define after_dot where "after_dot = takeWhile (\<lambda>c. c \<noteq> CHR ''.'') (rev comp)"
  have dot: "CHR ''.'' \<in> set comp" and len: "length after_dot + 1 \<noteq> length comp"
    and ext: "path_extname p = CHR ''.'' # rev after_dot"
    using assms
    by (auto simp: path_extname_def Let_def comp_def [symmetric] after_dot_def [symmetric]
        split: if_splits)
  define rest where "rest = dropWhile (\<lambda>c. c \<noteq> CHR ''.'') (rev comp)"
  have split: "rev comp = after_dot @ rest"
    by (simp add: after_dot_def rest_def)
  have "rest \<noteq> []" using dot by (auto simp: rest_def dropWhile_eq_Nil_conv)
  moreover have "hd rest = CHR ''.''"
    using hd_dropWhile [of "\<lambda>c. c \<noteq> CHR ''.''" "rev comp"] \<open>rest \<noteq> []\<close> by (simp add: rest_def)
  ultimately obtain tl_rest where rest: "rest = CHR ''.'' # tl_rest"
    by (cases rest) auto
  have "comp = rev (rev comp)" by simp
  also have "\<dots> = rev tl_rest @ CHR ''.'' # rev after_dot"
    unfolding split rest by simp
  finally have c: "comp = rev tl_rest @ path_extname p" using ext by simp
  have "length comp = length tl_rest + 1 + length after_dot"
    using arg_cong [OF split, of length] rest by simp
  then have "tl_rest \<noteq> []" using len by auto
  then show ?thesis using c comp_def by auto
qed

lemma basename_extname:
  "path_basename p (path_extname p) =
   take (length (last_component p) - length (path_extname p)) (last_component p)"
proof (cases "path_extname p = []")
  case True
  then show ?thesis by (simp add: path_basename_def)
next
  case False
  then obtain r where r: "r \<noteq> []" and c: "last_component p = r @ path_extname p"
    using extname_splits_component by blast
  have le: "length (path_extname p) \<le> length p"
    using length_last_component [of p] c by simp
  have ne: "path_extname p \<noteq> p"
    using length_last_component [of p] c r by auto
  have ew: "ends_with (last_component p) (path_extname p)"
    by (simp add: ends_with_def c)
  have nc: "path_extname p \<noteq> last_component p"
    using c r by simp
  show ?thesis
    using False le ne ew nc by (simp add: path_basename_def Let_def)
qed


lemma basename_slash_free: "CHR ''/'' \<notin> set (path_basename p (path_extname p))"
  using last_component_slash_free [of p] by (auto simp: basename_extname dest: in_set_takeD)


subsection \<open>What a conversion does to the world\<close>

lemma fs_stat_world: "fs_stat p w = (r, w1) \<Longrightarrow> w1 = log (Stat p) w"
  by (auto simp: fs_stat_def)

lemma node_at_log [simp]: "node_at (log e w) k = node_at w k"
  by (simp add: node_at_def log_def)

lemma cwd_log [simp]: "cwd (log e w) = cwd w"
  by (simp add: log_def)

lemma entries_log [simp]: "entries (log e w) = entries w"
  by (simp add: log_def)

lemma trace_log [simp]: "trace (log e w) = trace w @ [e]"
  by (simp add: log_def)

lemma evolves_refl: "evolves K w w"
  by (simp add: evolves_def)

lemma evolves_log: "evolves K w (log e w)"
  by (simp add: evolves_def)

lemma evolves_trans: "evolves K w w1 \<Longrightarrow> evolves K w1 w2 \<Longrightarrow> evolves K w w2"
  unfolding evolves_def by (intro conjI allI impI) (simp, blast, blast, blast)

lemma evolves_mono: "evolves [] w w' \<Longrightarrow> evolves K w w'"
  by (simp add: evolves_def)

lemma map_of_mkdir:
  "map_of (mkdir al q) key =
     (case map_of al key of Some n \<Rightarrow> Some n | None \<Rightarrow> if key = q then Some Dir else None)"
  by (auto simp: mkdir_def map_of_append map_add_def split: option.splits)

lemma map_of_foldl_mkdir:
  "map_of (foldl mkdir al qs) key =
     (case map_of al key of Some n \<Rightarrow> Some n | None \<Rightarrow> if key \<in> set qs then Some Dir else None)"
  by (induction qs arbitrary: al) (auto simp: map_of_mkdir split: option.splits)

lemma fs_stat_evolves: "fs_stat p w = (r, w1) \<Longrightarrow> evolves [] w w1"
  by (auto simp: fs_stat_def evolves_log)

lemma fs_readFile_evolves: "fs_readFile p w = (r, w1) \<Longrightarrow> evolves [] w w1"
  by (auto simp: fs_readFile_def evolves_log)


lemma fs_readText_evolves: "fs_readText L p w = (r, w1) \<Longrightarrow> evolves [] w w1"
  by (auto simp: fs_readText_def split: prod.splits sum.splits dest: fs_readFile_evolves)

lemma is_file_node_iff: "is_file_node x \<longleftrightarrow> (\<exists>b. x = Some (File b))"
  by (cases x rule: is_file_node.cases) auto

lemma fs_ensureDir_failed: "fs_ensureDir p w = (Inl e, w1) \<Longrightarrow> w1 = log (EnsureDir p) w"
  by (auto simp: fs_ensureDir_def Let_def split: if_splits)

lemma fs_ensureDir_node_at:
  "fs_ensureDir p w = (Inr u, w1) \<Longrightarrow>
   node_at w1 key =
     (case node_at w key of
        Some n \<Rightarrow> Some n
      | None \<Rightarrow> if key \<in> set (prefixes_of (resolve (cwd w) p)) then Some Dir else None)"
  by (auto simp: fs_ensureDir_def Let_def node_at_def log_def map_of_foldl_mkdir
      split: if_splits option.splits)

lemma fs_ensureDir_cwd: "fs_ensureDir p w = (r, w1) \<Longrightarrow> cwd w1 = cwd w"
  by (auto simp: fs_ensureDir_def Let_def log_def split: if_splits)

lemma fs_ensureDir_evolves:
  assumes "fs_ensureDir p w = (r, w1)"
  shows "evolves (prefixes_of (resolve (cwd w) p)) w w1"
proof (cases r)
  case (Inl e)
  then have "w1 = log (EnsureDir p) w" using assms fs_ensureDir_failed by simp
  then show ?thesis by (simp add: evolves_log)
next
  case (Inr u)
  then have n: "node_at w1 key =
     (case node_at w key of
        Some n \<Rightarrow> Some n
      | None \<Rightarrow> if key \<in> set (prefixes_of (resolve (cwd w) p)) then Some Dir else None)" for key
    using assms fs_ensureDir_node_at by simp
  show ?thesis
    unfolding evolves_def
    by (auto simp: n fs_ensureDir_cwd [OF assms] is_file_node_iff split: option.splits if_splits)
qed

lemma fs_writeFile_evolves: "fs_writeFile p bytes w = (r, w1) \<Longrightarrow> evolves [] w w1"
  by (auto simp: fs_writeFile_def Let_def evolves_def node_at_def log_def AList.update_conv'
      split: if_splits)

lemma fs_writeFile_written:
  "fs_writeFile p bytes w = (Inr u, w1) \<Longrightarrow>
   node_at w1 (resolve (cwd w1) p) = Some (File bytes) \<and> trace w1 = trace w @ [WriteFile p bytes]"
  by (auto simp: fs_writeFile_def Let_def node_at_def log_def AList.update_conv'
      split: if_splits)


lemma readPDF_evolves: "readPDF L p w = (r, w1) \<Longrightarrow> evolves [] w w1"
  by (auto simp: readPDF_def split: prod.splits sum.splits
      dest!: fs_readFile_evolves intro: evolves_trans evolves_log)

lemma readDOCX_evolves: "readDOCX L p w = (r, w1) \<Longrightarrow> evolves [] w w1"
  by (auto simp: readDOCX_def split: prod.splits sum.splits
      dest!: fs_readFile_evolves intro: evolves_trans evolves_log)

lemma readHTML_evolves: "readHTML L p w = (r, w1) \<Longrightarrow> evolves [] w w1"
  by (auto simp: readHTML_def split: prod.splits sum.splits
      dest!: fs_readText_evolves intro: evolves_trans evolves_log)

lemma readMarkdown_evolves: "readMarkdown L p w = (r, w1) \<Longrightarrow> evolves [] w w1"
  by (auto simp: readMarkdown_def split: prod.splits sum.splits dest!: fs_readText_evolves)

lemma readText_evolves: "readText L p w = (r, w1) \<Longrightarrow> evolves [] w w1"
  by (auto simp: readText_def split: prod.splits sum.splits dest!: fs_readText_evolves)

lemma readDocument_evolves:
  assumes "readDocument L cfg p w = (r, w1)"
  shows "evolves [] w w1"
proof (cases "fs_stat p w")
  case (Pair r0 w0)
  then have e0: "evolves [] w w0" by (rule fs_stat_evolves)
  show ?thesis
  proof (cases r0)
    case (Inl e)
    then show ?thesis using assms Pair e0 by (simp add: readDocument_def)
  next
    case (Inr st)
    have "w1 = w0 \<or> readPDF L p w0 = (r, w1) \<or> readDOCX L p w0 = (r, w1) \<or> readHTML L p w0 = (r, w1)
        \<or> readMarkdown L p w0 = (r, w1) \<or> readText L p w0 = (r, w1)"
      using assms Pair Inr by (simp add: readDocument_def Let_def split: if_splits)
    then have "evolves [] w0 w1"
      by (auto simp: evolves_refl
          dest: readPDF_evolves readDOCX_evolves readHTML_evolves readMarkdown_evolves
            readText_evolves)
    then show ?thesis using e0 evolves_trans by blast
  qed
qed

lemma convertToHTML_evolves: "convertToHTML L c f w = (r, w1) \<Longrightarrow> evolves [] w w1"
  by (auto simp: convertToHTML_def evolves_log evolves_refl split: if_splits sum.splits)

lemma convertToMarkdown_evolves: "convertToMarkdown L c f w = (r, w1) \<Longrightarrow> evolves [] w w1"
  by (auto simp: convertToMarkdown_def evolves_log evolves_refl split: if_splits sum.splits)

lemma write_converted_evolves: "write_converted L dest (r, w) = (r', w1) \<Longrightarrow> evolves [] w w1"
  by (auto simp: write_converted_def fs_writeText_def evolves_refl
      split: sum.splits prod.splits dest: fs_writeFile_evolves)

lemma convertToPDF_evolves:
  assumes "convertToPDF L c f outp w = (r, w1)"
  shows "evolves [] w w1"
proof -
  obtain r0 w0 where h: "(if f = ''html'' then (Inr c, w) else convertToHTML L c f w) = (r0, w0)"
    by (cases "if f = ''html'' then (Inr c, w) else convertToHTML L c f w") auto
  have e0: "evolves [] w w0"
    using h convertToHTML_evolves evolves_refl by (auto split: if_splits)
  have "evolves [] w0 w1"
    using assms h
    by (auto simp: convertToPDF_def evolves_refl evolves_log
        split: sum.splits prod.splits dest!: fs_writeFile_evolves intro: evolves_trans evolves_log)
  then show ?thesis using e0 evolves_trans by blast
qed


lemma convertDocument_cases:
  assumes "convertDocument L cfg ip fmt op w = (r, w')"
  obtains
    (read_failed) e where "readDocument L cfg ip w = (Inl e, w')" and "r = Inl e"
  | (unsupported) doc where "readDocument L cfg ip w = (Inr doc, w')"
      and "fmt \<notin> set (supported_formats_output cfg)"
      and "r = Inl (UnsupportedOutputFormat fmt)"
  | (ensure_failed) doc w1 e where "readDocument L cfg ip w = (Inr doc, w1)"
      and "fmt \<in> set (supported_formats_output cfg)"
      and "fs_ensureDir (output_directory cfg) w1 = (Inl e, w')" and "r = Inl e"
  | (dispatched) doc w1 w2 where "readDocument L cfg ip w = (Inr doc, w1)"
      and "fmt \<in> set (supported_formats_output cfg)"
      and "fs_ensureDir (output_directory cfg) w1 = (Inr (), w2)"
      and "(r, w') =
        (if fmt = ''html'' then
           write_converted L (finalOutputPath cfg ip fmt op)
             (convertToHTML L (content doc) (format doc) w2)
         else if fmt = ''md'' then
           write_converted L (finalOutputPath cfg ip fmt op)
             (convertToMarkdown L (content doc) (format doc) w2)
         else if fmt = ''txt'' then
           write_converted L (finalOutputPath cfg ip fmt op) (Inr (content doc), w2)
         else if fmt = ''pdf'' then
           convertToPDF L (content doc) (format doc) (finalOutputPath cfg ip fmt op) w2
         else (Inl (ConversionNotImplemented fmt), w2))"
proof (cases "readDocument L cfg ip w")
  case (Pair r0 w1)
  show ?thesis
  proof (cases r0)
    case (Inl e)
    then show ?thesis using assms Pair read_failed by (simp add: convertDocument_def)
  next
    case (Inr doc)
    note doc = this
    show ?thesis
    proof (cases "fmt \<in> set (supported_formats_output cfg)")
      case False
      then show ?thesis using assms Pair doc unsupported by (simp add: convertDocument_def)
    next
      case True
      show ?thesis
      proof (cases "fs_ensureDir (output_directory cfg) w1")
        case (Pair r2 w2)
        note ens = this
        show ?thesis
        proof (cases r2)
          case (Inl e)
          then show ?thesis
            using assms \<open>readDocument L cfg ip w = (r0, w1)\<close> doc True ens ensure_failed
            by (simp add: convertDocument_def)
        next
          case (Inr u)
          then show ?thesis
            using assms \<open>readDocument L cfg ip w = (r0, w1)\<close> doc True ens
              dispatched [of doc w1 w2]
            by (simp add: convertDocument_def Let_def)
        qed
      qed
    qed
  qed
qed

lemma dispatch_evolves:
  assumes "(r, w') =
        (if fmt = ''html'' then
           write_converted L dest (convertToHTML L c f w2)
         else if fmt = ''md'' then
           write_converted L dest (convertToMarkdown L c f w2)
         else if fmt = ''txt'' then
           write_converted L dest (Inr c, w2)
         else if fmt = ''pdf'' then
           convertToPDF L c f dest w2
         else (Inl (ConversionNotImplemented fmt), w2))"
  shows "evolves [] w2 w'"
proof -
  consider "fmt = ''html''" | "fmt \<noteq> ''html''" "fmt = ''md''"
    | "fmt \<noteq> ''html''" "fmt \<noteq> ''md''" "fmt = ''txt''"
    | "fmt \<noteq> ''html''" "fmt \<noteq> ''md''" "fmt \<noteq> ''txt''" "fmt = ''pdf''"
    | "fmt \<noteq> ''html''" "fmt \<noteq> ''md''" "fmt \<noteq> ''txt''" "fmt \<noteq> ''pdf''"
    by blast
  then show ?thesis
  proof cases
    case 1
    obtain r3 w3 where h: "convertToHTML L c f w2 = (r3, w3)"
      by (cases "convertToHTML L c f w2") auto
    have "write_converted L dest (r3, w3) = (r, w')"
      using assms 1 h by simp
    then show ?thesis
      using convertToHTML_evolves [OF h] write_converted_evolves evolves_trans by blast
  next
    case 2
    obtain r3 w3 where h: "convertToMarkdown L c f w2 = (r3, w3)"
      by (cases "convertToMarkdown L c f w2") auto
    have "write_converted L dest (r3, w3) = (r, w')"
      using assms 2 h by simp
    then show ?thesis
      using convertToMarkdown_evolves [OF h] write_converted_evolves evolves_trans by blast
  next
    case 3
    have "write_converted L dest (Inr c, w2) = (r, w')"
      using assms 3 by simp
    then show ?thesis by (rule write_converted_evolves)
  next
    case 4
    have "convertToPDF L c f dest w2 = (r, w')"
      using assms 4 by simp
    then show ?thesis by (rule convertToPDF_evolves)
  next
    case 5
    then have "w' = w2" using assms by simp
    then show ?thesis by (simp add: evolves_refl)
  qed
qed

lemma convertDocument_evolves:
  assumes "convertDocument L cfg ip fmt op w = (r, w')"
  shows "evolves (prefixes_of (resolve (cwd w) (output_directory cfg))) w w'"
  using assms
proof (cases rule: convertDocument_cases)
  case (read_failed e)
  then show ?thesis using readDocument_evolves evolves_mono by blast
next
  case (unsupported doc)
  then show ?thesis using readDocument_evolves evolves_mono by blast
next
  case (ensure_failed doc w1 e)
  have a: "evolves [] w w1" using ensure_failed(1) by (rule readDocument_evolves)
  then have c: "cwd w1 = cwd w" by (simp add: evolves_def)
  have "evolves (prefixes_of (resolve (cwd w) (output_directory cfg))) w1 w'"
    using fs_ensureDir_evolves [OF ensure_failed(3)] c by simp
  then show ?thesis using a evolves_mono evolves_trans by blast
next
  case (dispatched doc w1 w2)
  have a: "evolves [] w w1" using dispatched(1) by (rule readDocument_evolves)
  then have c: "cwd w1 = cwd w" by (simp add: evolves_def)
  have b: "evolves (prefixes_of (resolve (cwd w) (output_directory cfg))) w1 w2"
    using fs_ensureDir_evolves [OF dispatched(3)] c by simp
  have d: "evolves [] w2 w'"
    using dispatched(4) by (rule dispatch_evolves)
  show ?thesis using a b d evolves_mono evolves_trans by blast
qed


lemma write_converted_success:
  "write_converted L dest (r0, w0) = (Inr d, w') \<Longrightarrow>
   d = dest \<and> (\<exists>c. r0 = Inr c \<and> fs_writeText L dest c w0 = (Inr (), w'))"
  by (auto simp: write_converted_def split: sum.splits prod.splits)

lemma write_converted_wrote:
  "write_converted L dest (r0, w0) = (Inr d, w') \<Longrightarrow>
   d = dest \<and> (\<exists>bytes w1. fs_writeFile d bytes w1 = (Inr (), w'))"
  using write_converted_success [of L dest r0 w0 d w'] unfolding fs_writeText_def by blast

lemma convertToPDF_success:
  "convertToPDF L c f outp w = (Inr d, w') \<Longrightarrow>
   d = outp \<and> (\<exists>bytes w0. fs_writeFile outp bytes w0 = (Inr (), w'))"
  by (auto simp: convertToPDF_def split: sum.splits prod.splits if_splits)

lemma convertDocument_success:
  assumes "convertDocument L cfg ip fmt op w = (Inr dest, w')"
  shows "dest = finalOutputPath cfg ip fmt op
       \<and> fmt \<in> {''html'', ''md'', ''txt'', ''pdf''}
       \<and> (\<exists>bytes w0. fs_writeFile dest bytes w0 = (Inr (), w'))"
  using assms
proof (cases rule: convertDocument_cases)
  case (dispatched doc w1 w2)
  consider "fmt = ''html''" | "fmt \<noteq> ''html''" "fmt = ''md''"
    | "fmt \<noteq> ''html''" "fmt \<noteq> ''md''" "fmt = ''txt''"
    | "fmt \<noteq> ''html''" "fmt \<noteq> ''md''" "fmt \<noteq> ''txt''" "fmt = ''pdf''"
    | "fmt \<noteq> ''html''" "fmt \<noteq> ''md''" "fmt \<noteq> ''txt''" "fmt \<noteq> ''pdf''"
    by blast
  then show ?thesis
  proof cases
    case 1
    obtain r3 w3 where h: "convertToHTML L (content doc) (format doc) w2 = (r3, w3)"
      by (cases "convertToHTML L (content doc) (format doc) w2") auto
    have "write_converted L (finalOutputPath cfg ip fmt op) (r3, w3) = (Inr dest, w')"
      using dispatched(4) 1 h by simp
    then show ?thesis
      using 1 by (auto dest!: write_converted_wrote)
  next
    case 2
    obtain r3 w3 where h: "convertToMarkdown L (content doc) (format doc) w2 = (r3, w3)"
      by (cases "convertToMarkdown L (content doc) (format doc) w2") auto
    have "write_converted L (finalOutputPath cfg ip fmt op) (r3, w3) = (Inr dest, w')"
      using dispatched(4) 2 h by simp
    then show ?thesis
      using 2 by (auto dest!: write_converted_wrote)
  next
    case 3
    have "write_converted L (finalOutputPath cfg ip fmt op) (Inr (content doc), w2) = (Inr dest, w')"
      using dispatched(4) 3 by simp
    then show ?thesis
      using 3 by (auto dest!: write_converted_wrote)
  next
    case 4
    have "convertToPDF L (content doc) (format doc) (finalOutputPath cfg ip fmt op) w2 = (Inr dest, w')"
      using dispatched(4) 4 by simp
    then show ?thesis
      using 4 convertToPDF_success by blast
  next
    case 5
    then show ?thesis using dispatched(4) by simp
  qed
qed simp_all

lemma default_name_valid:
  assumes "fmt \<in> {''html'', ''md'', ''txt'', ''pdf''}"
  shows "valid_name (path_basename ip (path_extname ip) @ ''.'' @ fmt)"
proof -
  have sf: "CHR ''/'' \<notin> set (path_basename ip (path_extname ip))"
    by (rule basename_slash_free)
  have f: "CHR ''/'' \<notin> set fmt" and l: "2 \<le> length fmt"
    using assms by auto
  have len: "3 \<le> length (path_basename ip (path_extname ip) @ ''.'' @ fmt)"
    using l by simp
  have short: "y \<noteq> [] \<and> y \<noteq> ''.'' \<and> y \<noteq> ''..''" if "3 \<le> length y" for y :: string
    using that by auto
  have "path_basename ip (path_extname ip) @ ''.'' @ fmt \<noteq> []
      \<and> path_basename ip (path_extname ip) @ ''.'' @ fmt \<noteq> ''.''
      \<and> path_basename ip (path_extname ip) @ ''.'' @ fmt \<noteq> ''..''"
    using len by (rule short)
  then show ?thesis
    using sf f unfolding valid_name_def by simp
qed

lemma fs_readFile_success:
  "fs_readFile p w = (Inr bytes, w1) \<Longrightarrow>
   lookup_path w p = Inr (File bytes) \<and> w1 = log (ReadFile p) w"
  by (auto simp: fs_readFile_def split: sum.splits node.splits)

lemma readMarkdown_success:
  "readMarkdown L p w = (Inr doc, w1) \<Longrightarrow>
   \<exists>bytes. lookup_path w p = Inr (File bytes) \<and> content doc = utf8_decode L bytes
     \<and> format doc = ''md'' \<and> w1 = log (ReadFile p) w"
  by (auto simp: readMarkdown_def fs_readText_def split: prod.splits sum.splits
      dest!: fs_readFile_success)

lemma lookup_path_log [simp]: "lookup_path (log e w) p = lookup_path w p"
  by (simp add: lookup_path_def)

lemma prefixes_of_self: "k \<noteq> [] \<Longrightarrow> k \<in> set (prefixes_of k)"
proof -
  assume "k \<noteq> []"
  then have "length k \<in> set [1..<Suc (length k)]" by (cases k) auto
  then have "(\<lambda>n. take n k) (length k) \<in> (\<lambda>n. take n k) ` set [1..<Suc (length k)]"
    by (rule imageI)
  then show ?thesis by (simp add: prefixes_of_def)
qed

lemma fs_ensureDir_success_dir:
  assumes "fs_ensureDir p w = (Inr u, w1)"
  shows "node_at w1 (resolve (cwd w) p) = Some Dir"
proof -
  define k where "k = resolve (cwd w) p"
  have nf: "\<not> is_file_node (node_at w k)"
    using assms by (auto simp: fs_ensureDir_def Let_def k_def split: if_splits)
  have n: "node_at w1 k =
     (case node_at w k of
        Some n \<Rightarrow> Some n
      | None \<Rightarrow> if k \<in> set (prefixes_of k) then Some Dir else None)"
    unfolding k_def using assms by (rule fs_ensureDir_node_at)
  show ?thesis
  proof (cases "node_at w k")
    case None
    then have "k \<noteq> []" by (auto simp: node_at_def)
    then show ?thesis using n None prefixes_of_self k_def by simp
  next
    case (Some nd)
    then show ?thesis using n nf k_def by (cases nd) auto
  qed
qed

subsection \<open>The batch loop\<close>

lemma fs_stat_child:
  assumes "valid_name f"
  shows "fs_stat (path_join dir f) w =
     ((case node_at w (resolve (cwd w) dir @ [f]) of
         None \<Rightarrow> Inl (FsError ENOENT (path_join dir f))
       | Some n \<Rightarrow> Inr (stats_of n)),
      log (Stat (path_join dir f)) w)"
  using path_join_not_empty [OF assms, of dir] path_join_no_trailing_slash [OF assms, of dir]
  by (simp add: fs_stat_def lookup_path_def resolve_path_join [OF assms]
      split: option.splits node.splits)

lemma isFile_stats_of: "isFile (stats_of n) = is_file_node (Some n)"
  by (cases n) simp_all

lemma is_regular_file_child:
  "valid_name f \<Longrightarrow>
   is_regular_file w (path_join dir f) = is_file_node (node_at w (resolve (cwd w) dir @ [f]))"
  by (simp add: is_regular_file_def fs_stat_child isFile_stats_of split: option.splits)

lemma children_exist:
  assumes "f \<in> set (children al k)"
  shows "map_of al (k @ [f]) \<noteq> None \<and> (\<exists>n. (k @ [f], n) \<in> set al)"
proof -
  obtain q n where m: "(q, n) \<in> set al" and q: "q \<noteq> []" "butlast q = k" "last q = f"
    using assms by (auto simp: children_def)
  have "q = k @ [f]" using q append_butlast_last_id by metis
  then have "(k @ [f], n) \<in> set al" using m by simp
  then show ?thesis by (metis map_of_eq_None_iff fst_conv image_eqI)
qed

lemma children_valid:
  assumes "wf_world w" and "f \<in> set (children (entries w) k)"
  shows "valid_name f"
proof -
  obtain n where "(k @ [f], n) \<in> set (entries w)"
    using children_exist [OF assms(2)] by blast
  then have "list_all valid_name (k @ [f])"
    using assms(1) by (auto simp: wf_world_def list_all_iff)
  then show ?thesis by simp
qed

lemma evolves_kind:
  assumes "evolves K w0 w" and "node_at w0 key \<noteq> None"
  shows "node_at w key \<noteq> None \<and> is_file_node (node_at w key) = is_file_node (node_at w0 key)"
proof -
  obtain n where n: "node_at w0 key = Some n" using assms(2) by auto
  show ?thesis
  proof (cases n)
    case (File b)
    then have "is_file_node (node_at w key)"
      using assms(1) n by (simp add: evolves_def)
    then show ?thesis using n File by (auto simp: is_file_node_iff)
  next
    case Dir
    then have "node_at w key = Some Dir"
      using assms(1) n by (simp add: evolves_def)
    then show ?thesis using n Dir by simp
  qed
qed

lemma converted_of_simps [simp]:
  "converted_of [] = []"
  "converted_of ((f, Inr d) # outs) = (f, path_basename d []) # converted_of outs"
  "converted_of ((f, Inl e) # outs) = converted_of outs"
  by (simp_all add: converted_of_def)

lemma failed_of_simps [simp]:
  "failed_of [] = []"
  "failed_of ((f, Inr d) # outs) = failed_of outs"
  "failed_of ((f, Inl e) # outs) = (f, e) # failed_of outs"
  by (simp_all add: failed_of_def)

lemma length_outcomes: "length (converted_of outs) + length (failed_of outs) = length outs"
proof (induction outs)
  case Nil
  then show ?case by simp
next
  case (Cons a outs)
  obtain f r where a: "a = (f, r)" by (cases a)
  show ?case using Cons a by (cases r) simp_all
qed

lemma batch_loop_skip:
  assumes "fs_stat (path_join dir f) w = (Inr st, w1)"
    and "\<not> isFile st \<or> file_matches L pat f = Inr False"
  shows "batch_loop L cfg dir fmt pat (f # fs) results errors w =
         batch_loop L cfg dir fmt pat fs results errors w1"
  using assms by (auto simp: Let_def)

lemma batch_loop_convert:
  assumes "fs_stat (path_join dir f) w = (Inr st, w1)" and "isFile st"
    and "file_matches L pat f = Inr True"
    and "convertDocument L cfg (path_join dir f) fmt None w1 = (r, w2)"
  shows "batch_loop L cfg dir fmt pat (f # fs) results errors w =
         (case r of
            Inr result \<Rightarrow> batch_loop L cfg dir fmt pat fs
                            (results @ [(f, path_basename result [])]) errors w2
          | Inl e \<Rightarrow> batch_loop L cfg dir fmt pat fs results (errors @ [(f, e)]) w2)"
  using assms by (auto simp: Let_def split: sum.splits)

lemma spec_batch_skip:
  assumes "fs_stat (path_join dir f) w = (Inr st, w1)"
    and "\<not> isFile st \<or> file_matches L pat f = Inr False"
  shows "spec_batch_outcomes L cfg dir fmt pat (f # fs) w =
         spec_batch_outcomes L cfg dir fmt pat fs w1"
  using assms by auto

lemma spec_batch_convert:
  assumes "fs_stat (path_join dir f) w = (Inr st, w1)" and "isFile st"
    and "file_matches L pat f = Inr True"
    and "convertDocument L cfg (path_join dir f) fmt None w1 = (r, w2)"
  shows "spec_batch_outcomes L cfg dir fmt pat (f # fs) w =
         (f, r) # spec_batch_outcomes L cfg dir fmt pat fs w2"
  using assms by auto


lemma batch_loop_refines:
  assumes "evolves K w0 w"
    and "K = prefixes_of (resolve (cwd w0) (output_directory cfg))"
    and "\<forall>f \<in> set files. valid_name f \<and> node_at w0 (resolve (cwd w0) dir @ [f]) \<noteq> None"
    and "\<forall>f \<in> set files. \<exists>b. file_matches L pat f = Inr b"
  shows "(\<exists>w'. batch_loop L cfg dir fmt pat files results errors w =
            (Inr (results @ converted_of (spec_batch_outcomes L cfg dir fmt pat files w),
                  errors @ failed_of (spec_batch_outcomes L cfg dir fmt pat files w)), w'))
       \<and> map fst (spec_batch_outcomes L cfg dir fmt pat files w) =
           matched_files L dir pat w0 files"
  using assms
proof (induction files arbitrary: w results errors)
  case Nil
  then show ?case by (simp add: matched_files_def)
next
  case (Cons f fs)
  have v: "valid_name f" and ex: "node_at w0 (resolve (cwd w0) dir @ [f]) \<noteq> None"
    using Cons.prems(3) by simp_all
  have c: "cwd w = cwd w0" using Cons.prems(1) by (simp add: evolves_def)
  have kind: "node_at w (resolve (cwd w) dir @ [f]) \<noteq> None"
    "is_file_node (node_at w (resolve (cwd w) dir @ [f])) =
     is_file_node (node_at w0 (resolve (cwd w0) dir @ [f]))"
    using evolves_kind [OF Cons.prems(1) ex] c by simp_all
  obtain n where n: "node_at w (resolve (cwd w) dir @ [f]) = Some n"
    using kind(1) by auto
  define w1 where "w1 = log (Stat (path_join dir f)) w"
  have st: "fs_stat (path_join dir f) w = (Inr (stats_of n), w1)"
    using fs_stat_child [OF v, of dir w] n by (simp add: w1_def)
  have reg: "isFile (stats_of n) = is_regular_file w0 (path_join dir f)"
    using kind(2) n by (simp add: isFile_stats_of is_regular_file_child [OF v])
  have e1: "evolves K w0 w1"
    using Cons.prems(1) evolves_log [of K w] evolves_trans unfolding w1_def by blast
  have rest3: "\<forall>f \<in> set fs. valid_name f \<and> node_at w0 (resolve (cwd w0) dir @ [f]) \<noteq> None"
    using Cons.prems(3) by simp
  have rest4: "\<forall>f \<in> set fs. \<exists>b. file_matches L pat f = Inr b"
    using Cons.prems(4) by simp
  obtain b where b: "file_matches L pat f = Inr b"
    using Cons.prems(4) by auto
  show ?case
  proof (cases "isFile (stats_of n) \<and> b")
    case False
    then have sk: "\<not> isFile (stats_of n) \<or> file_matches L pat f = Inr False"
      using b by auto
    have m: "matched_files L dir pat w0 (f # fs) = matched_files L dir pat w0 fs"
      using False reg b by (auto simp: matched_files_def)
    show ?thesis
      using Cons.IH [OF e1 Cons.prems(2) rest3 rest4, of results errors]
      by (simp only: batch_loop_skip [OF st sk] spec_batch_skip [OF st sk] m)
  next
    case True
    then have isf: "isFile (stats_of n)" and fm: "file_matches L pat f = Inr True"
      using b by simp_all
    obtain r w2 where cd: "convertDocument L cfg (path_join dir f) fmt None w1 = (r, w2)"
      by (cases "convertDocument L cfg (path_join dir f) fmt None w1") auto
    have "cwd w1 = cwd w0" using e1 by (simp add: evolves_def)
    then have "evolves K w1 w2"
      using convertDocument_evolves [OF cd] Cons.prems(2) by simp
    then have e2: "evolves K w0 w2" using e1 evolves_trans by blast
    have m: "matched_files L dir pat w0 (f # fs) = f # matched_files L dir pat w0 fs"
      using isf reg fm by (simp add: matched_files_def)
    have sp: "spec_batch_outcomes L cfg dir fmt pat (f # fs) w =
        (f, r) # spec_batch_outcomes L cfg dir fmt pat fs w2"
      using st isf fm cd by (rule spec_batch_convert)
    show ?thesis
    proof (cases r)
      case (Inl e)
      have bl: "batch_loop L cfg dir fmt pat (f # fs) results errors w =
          batch_loop L cfg dir fmt pat fs results (errors @ [(f, e)]) w2"
        using batch_loop_convert [OF st isf fm cd] Inl by simp
      show ?thesis
        using Cons.IH [OF e2 Cons.prems(2) rest3 rest4, of results "errors @ [(f, e)]"]
        by (simp del: batch_loop.simps spec_batch_outcomes.simps add: bl sp m Inl)
    next
      case (Inr result)
      have bl: "batch_loop L cfg dir fmt pat (f # fs) results errors w =
          batch_loop L cfg dir fmt pat fs (results @ [(f, path_basename result [])]) errors w2"
        using batch_loop_convert [OF st isf fm cd] Inr by simp
      show ?thesis
        using Cons.IH [OF e2 Cons.prems(2) rest3 rest4,
            of "results @ [(f, path_basename result [])]" errors]
        by (simp del: batch_loop.simps spec_batch_outcomes.simps add: bl sp m Inr)
    qed
  qed
qed












lemma keeps_files_log: "keeps_files K w (log e w)"
  by (simp add: keeps_files_def)

lemma keeps_files_mono: "keeps_files K w w' \<Longrightarrow> set K \<subseteq> set K' \<Longrightarrow> keeps_files K' w w'"
  unfolding keeps_files_def by blast


lemma fs_stat_keeps: "fs_stat p w = (r, w1) \<Longrightarrow> keeps_files K w w1"
  by (auto simp: fs_stat_def keeps_files_log)















subsection \<open>The size limit\<close>

text \<open>
  C2. A file whose size is strictly above \<open>max_file_size\<close> makes \<open>readDocument\<close>, and with it
  \<open>convertDocument\<close> and \<open>get_document_info\<close>, fail with the size-limit error. Nothing but
  the \<open>fs.stat\<close> happened before: the trace gains that one call (no file was read, no library
  called) and the file system is as it was.
\<close>

theorem oversized_file_rejected_before_decoding:
  assumes "fs_stat filePath w = (Inr st, w1)"
    and "int (fsize st) > max_file_size cfg"
  shows "readDocument L cfg filePath w = (Inl (FileSizeExceeded (max_file_size cfg)), w1)
       \<and> convertDocument L cfg filePath outputFormat outputPath w =
           (Inl (FileSizeExceeded (max_file_size cfg)), w1)
       \<and> get_document_info L cfg filePath w = (Inl (FileSizeExceeded (max_file_size cfg)), w1)
       \<and> trace w1 = trace w @ [Stat filePath]
       \<and> entries w1 = entries w"
proof -
  have r: "readDocument L cfg filePath w = (Inl (FileSizeExceeded (max_file_size cfg)), w1)"
    using assms by (simp add: readDocument_def)
  have w1: "w1 = log (Stat filePath) w"
    using assms(1) by (rule fs_stat_world)
  show ?thesis
    using r w1 by (simp add: convertDocument_def get_document_info_def log_def)
qed

theorem oversized_file_rejected_witness:
  "readDocument sample_libs sample_config ''in/big.txt'' sample_world =
     (Inl (FileSizeExceeded 10), log (Stat ''in/big.txt'') sample_world)
   \<and> convertDocument sample_libs sample_config ''in/big.txt'' ''html'' None sample_world =
     (Inl (FileSizeExceeded 10), log (Stat ''in/big.txt'') sample_world)
   \<and> get_document_info sample_libs sample_config ''in/big.txt'' sample_world =
     (Inl (FileSizeExceeded 10), log (Stat ''in/big.txt'') sample_world)
   \<and> trace (log (Stat ''in/big.txt'') sample_world) = [Stat ''in/big.txt'']"
proof -
  have st: "fs_stat ''in/big.txt'' sample_world =
      (Inr \<lparr>isFile = True, fsize = 11\<rparr>, log (Stat ''in/big.txt'') sample_world)"
    by code_simp
  have gt: "int (fsize \<lparr>isFile = True, fsize = 11\<rparr>) > max_file_size sample_config"
    by (simp add: sample_config_def)
  have m: "max_file_size sample_config = 10"
    by (simp add: sample_config_def)
  have t: "trace sample_world = []"
    by (simp add: sample_world_def)
  show ?thesis
    using oversized_file_rejected_before_decoding [OF st gt, of sample_libs "''html''" None]
    by (simp add: m t)
qed

lemma fs_readFile_error: "fs_readFile p w = (Inl e, w1) \<Longrightarrow> \<exists>c q. e = FsError c q"
  by (auto simp: fs_readFile_def lookup_path_def
      split: if_splits option.splits node.splits sum.splits)

lemma fs_readText_error: "fs_readText L p w = (Inl e, w1) \<Longrightarrow> \<exists>c q. e = FsError c q"
  by (auto simp: fs_readText_def split: prod.splits sum.splits dest: fs_readFile_error)

lemma readPDF_error:
  "readPDF L p w = (Inl e, w1) \<Longrightarrow> (\<exists>c q. e = FsError c q) \<or> (\<exists>m. e = LibraryError m)"
  by (auto simp: readPDF_def split: prod.splits sum.splits dest: fs_readFile_error)

lemma readDOCX_error:
  "readDOCX L p w = (Inl e, w1) \<Longrightarrow> (\<exists>c q. e = FsError c q) \<or> (\<exists>m. e = LibraryError m)"
  by (auto simp: readDOCX_def split: prod.splits sum.splits dest: fs_readFile_error)

lemma readHTML_error:
  "readHTML L p w = (Inl e, w1) \<Longrightarrow> (\<exists>c q. e = FsError c q) \<or> (\<exists>m. e = LibraryError m)"
  by (auto simp: readHTML_def split: prod.splits sum.splits dest: fs_readText_error)

lemma readMarkdown_error: "readMarkdown L p w = (Inl e, w1) \<Longrightarrow> \<exists>c q. e = FsError c q"
  by (auto simp: readMarkdown_def split: prod.splits sum.splits dest: fs_readText_error)

lemma readText_error: "readText L p w = (Inl e, w1) \<Longrightarrow> \<exists>c q. e = FsError c q"
  by (auto simp: readText_def split: prod.splits sum.splits dest: fs_readText_error)

text \<open>
  C8. The comparison is strict. Once \<open>fs.stat\<close> has answered, \<open>readDocument\<close> fails with the
  size-limit error exactly when the size is strictly above the limit; a file of exactly
  \<open>max_file_size\<close> bytes goes on to the reader of its format.
\<close>

theorem size_limit_is_strict:
  assumes st: "fs_stat filePath w = (Inr st, w1)"
  shows "((\<exists>m. fst (readDocument L cfg filePath w) = Inl (FileSizeExceeded m)) \<longleftrightarrow>
            int (fsize st) > max_file_size cfg)
       \<and> (int (fsize st) = max_file_size cfg \<longrightarrow>
            readDocument L cfg filePath w =
              (if detectFormat filePath = ''pdf'' then readPDF L filePath w1
               else if detectFormat filePath = ''docx'' then readDOCX L filePath w1
               else if detectFormat filePath = ''html'' then readHTML L filePath w1
               else if detectFormat filePath = ''md'' then readMarkdown L filePath w1
               else if detectFormat filePath = ''txt'' then readText L filePath w1
               else (Inl (UnsupportedFileFormat (detectFormat filePath)), w1)))"
proof -
  have big: "int (fsize st) > max_file_size cfg \<Longrightarrow>
      fst (readDocument L cfg filePath w) = Inl (FileSizeExceeded (max_file_size cfg))"
    using st by (simp add: readDocument_def)
  have small: "\<not> int (fsize st) > max_file_size cfg \<Longrightarrow>
      readDocument L cfg filePath w =
              (if detectFormat filePath = ''pdf'' then readPDF L filePath w1
               else if detectFormat filePath = ''docx'' then readDOCX L filePath w1
               else if detectFormat filePath = ''html'' then readHTML L filePath w1
               else if detectFormat filePath = ''md'' then readMarkdown L filePath w1
               else if detectFormat filePath = ''txt'' then readText L filePath w1
               else (Inl (UnsupportedFileFormat (detectFormat filePath)), w1))"
    using st by (simp add: readDocument_def Let_def)
  have none: "\<not> int (fsize st) > max_file_size cfg \<Longrightarrow>
      fst (readDocument L cfg filePath w) \<noteq> Inl (FileSizeExceeded m)" for m
  proof
    assume le: "\<not> int (fsize st) > max_file_size cfg"
      and f: "fst (readDocument L cfg filePath w) = Inl (FileSizeExceeded m)"
    obtain w2 where r: "readDocument L cfg filePath w = (Inl (FileSizeExceeded m), w2)"
      using f by (cases "readDocument L cfg filePath w") auto
    show False
      using r small [OF le]
      by (auto split: if_splits
          dest: readPDF_error readDOCX_error readHTML_error readMarkdown_error readText_error)
  qed
  show ?thesis
  proof (intro conjI impI)
    show "(\<exists>m. fst (readDocument L cfg filePath w) = Inl (FileSizeExceeded m)) \<longleftrightarrow>
            int (fsize st) > max_file_size cfg"
    proof
      assume "\<exists>m. fst (readDocument L cfg filePath w) = Inl (FileSizeExceeded m)"
      then show "int (fsize st) > max_file_size cfg"
        using none by blast
    next
      assume "int (fsize st) > max_file_size cfg"
      then show "\<exists>m. fst (readDocument L cfg filePath w) = Inl (FileSizeExceeded m)"
        using big by blast
    qed
  next
    assume "int (fsize st) = max_file_size cfg"
    then have "\<not> int (fsize st) > max_file_size cfg"
      by simp
    then show "readDocument L cfg filePath w =
              (if detectFormat filePath = ''pdf'' then readPDF L filePath w1
               else if detectFormat filePath = ''docx'' then readDOCX L filePath w1
               else if detectFormat filePath = ''html'' then readHTML L filePath w1
               else if detectFormat filePath = ''md'' then readMarkdown L filePath w1
               else if detectFormat filePath = ''txt'' then readText L filePath w1
               else (Inl (UnsupportedFileFormat (detectFormat filePath)), w1))"
      by (rule small)
  qed
qed

theorem size_limit_is_strict_witness:
  "fs_stat ''in/full.txt'' sample_world =
     (Inr \<lparr>isFile = True, fsize = 10\<rparr>, log (Stat ''in/full.txt'') sample_world)
   \<and> int (fsize \<lparr>isFile = True, fsize = 10\<rparr>) = max_file_size sample_config
   \<and> fst (readDocument sample_libs sample_config ''in/full.txt'' sample_world) =
     Inr \<lparr>content = ''0123456789'', format = ''txt'', metadata = None\<rparr>"
proof -
  have st: "fs_stat ''in/full.txt'' sample_world =
      (Inr \<lparr>isFile = True, fsize = 10\<rparr>, log (Stat ''in/full.txt'') sample_world)"
    by code_simp
  have eq: "int (fsize \<lparr>isFile = True, fsize = 10\<rparr>) = max_file_size sample_config"
    by (simp add: sample_config_def)
  have fmt: "detectFormat ''in/full.txt'' = ''txt''"
    by code_simp
  have rd: "fst (readText sample_libs ''in/full.txt'' (log (Stat ''in/full.txt'') sample_world)) =
     Inr \<lparr>content = ''0123456789'', format = ''txt'', metadata = None\<rparr>"
    by code_simp
  show ?thesis
    using size_limit_is_strict [OF st, of sample_libs sample_config] st eq by (simp add: fmt rd)
qed

subsection \<open>The inert flag\<close>

text \<open>
  C7. \<open>preserve_formatting\<close> is never consulted: two runs of \<open>convertDocument\<close> that differ
  only in the flag return the same result (the same destination or the same error) and leave
  the same world, so the same content at the same place.
\<close>

theorem preserve_formatting_is_inert:
  "convertDocument L (cfg\<lparr>preserve_formatting := b\<rparr>) inputPath outputFormat outputPath w =
   convertDocument L cfg inputPath outputFormat outputPath w"
  by (simp add: convertDocument_def readDocument_def finalOutputPath_def Let_def
      cong: if_cong prod.case_cong sum.case_cong option.case_cong)

subsection \<open>The target \<open>docx\<close>\<close>

text \<open>
  C4, as the claim states it, fails: the document is read before the target is looked at, so
  a request for \<open>docx\<close> ends in the error of the read when the read fails. A text file above
  the size limit gives the size-limit error, a path that does not exist the error of
  \<open>fs.stat\<close>, and a file whose extension is not recognised
  \<open>Unsupported file format: unknown\<close>.
\<close>

theorem docx_request_other_error_counterexample:
  "fst (convertDocument sample_libs sample_config ''in/big.txt'' ''docx'' None sample_world) =
     Inl (FileSizeExceeded 10)
   \<and> fst (convertDocument sample_libs sample_config ''in/missing.md'' ''docx'' None sample_world) =
     Inl (FsError ENOENT ''in/missing.md'')
   \<and> fst (convertDocument sample_libs sample_config ''in/bad.xyz'' ''docx'' None sample_world) =
     Inl (UnsupportedFileFormat ''unknown'')
   \<and> fst (convertDocument sample_libs sample_config ''in/big.txt'' ''docx'' None sample_world) \<noteq>
     Inl (ConversionNotImplemented ''docx'')"
  by code_simp

text \<open>
  C4, amended. A request for \<open>docx\<close> never succeeds, whatever the input; and once the document
  has been read, \<open>docx\<close> is among the supported output formats and the output directory is
  ensured, it fails with \<open>Conversion to docx not implemented\<close>, whatever the format of the
  document.
\<close>

theorem docx_conversion_not_implemented:
  "(\<forall>d. fst (convertDocument L cfg inputPath ''docx'' outputPath w) \<noteq> Inr d)
   \<and> (readDocument L cfg inputPath w = (Inr doc, w1)
        \<and> ''docx'' \<in> set (supported_formats_output cfg)
        \<and> fs_ensureDir (output_directory cfg) w1 = (Inr (), w2)
      \<longrightarrow> convertDocument L cfg inputPath ''docx'' outputPath w =
            (Inl (ConversionNotImplemented ''docx''), w2))"
  by (auto simp: convertDocument_def Let_def split: prod.splits sum.splits)

theorem docx_conversion_not_implemented_witness:
  "fst (readDocument sample_libs sample_config ''in/good.md'' sample_world) =
     Inr \<lparr>content = ''# Hi'', format = ''md'', metadata = None\<rparr>
   \<and> ''docx'' \<in> set (supported_formats_output sample_config)
   \<and> fst (convertDocument sample_libs sample_config ''in/good.md'' ''docx'' None sample_world) =
     Inl (ConversionNotImplemented ''docx'')"
proof -
  define w1 where "w1 = log (ReadFile ''in/good.md'') (log (Stat ''in/good.md'') sample_world)"
  define w2 where "w2 = snd (fs_ensureDir ''./out'' w1)"
  have rd: "readDocument sample_libs sample_config ''in/good.md'' sample_world =
      (Inr \<lparr>content = ''# Hi'', format = ''md'', metadata = None\<rparr>, w1)"
    unfolding w1_def by code_simp
  have sup: "''docx'' \<in> set (supported_formats_output sample_config)"
    by (simp add: sample_config_def)
  have ens: "fs_ensureDir (output_directory sample_config) w1 = (Inr (), w2)"
    unfolding w1_def w2_def by code_simp
  show ?thesis
    using docx_conversion_not_implemented
      [of sample_libs sample_config "''in/good.md''" None sample_world _ w1 w2] rd sup ens
    by simp
qed

subsection \<open>The file pattern\<close>

text \<open>
  C3. The filter of \<open>batch_convert\<close> is not the glob match the specification describes. With
  the pattern \<open>*.md\<close> the code searches for the regular expression \<open>.*.md\<close>, in which the dot
  stands for any character and nothing anchors the match to the whole name: the file
  \<open>cmd.txt\<close> passes the filter, and the glob rejects it. On the three names the specification
  lists the code does as it says.
\<close>

theorem file_pattern_is_not_a_glob:
  assumes "regexp_conforms L"
  shows "file_matches L (Some ''*.md'') ''cmd.txt'' = Inr True
       \<and> \<not> spec_glob_match ''*.md'' ''cmd.txt''
       \<and> file_matches L (Some ''*.md'') ''notes.md'' = Inr True
       \<and> file_matches L (Some ''*.md'') ''README.md'' = Inr True
       \<and> file_matches L (Some ''*.md'') ''notes.txt'' = Inr False"
proof -
  have a: "js_regexp_test ''.*.md'' ''cmd.txt'' = Some (Inr True)"
    by code_simp
  have b: "js_regexp_test ''.*.md'' ''notes.md'' = Some (Inr True)"
    by code_simp
  have c: "js_regexp_test ''.*.md'' ''README.md'' = Some (Inr True)"
    by code_simp
  have d: "js_regexp_test ''.*.md'' ''notes.txt'' = Some (Inr False)"
    by code_simp
  have g: "\<not> spec_glob_match ''*.md'' ''cmd.txt''"
    by code_simp
  show ?thesis
    using assms a b c d g by (simp add: regexp_conforms_def file_matches_def)
qed

theorem file_pattern_is_not_a_glob_witness:
  "regexp_conforms sample_libs
   \<and> file_matches sample_libs (Some ''*.md'') ''cmd.txt'' = Inr True
   \<and> \<not> spec_glob_match ''*.md'' ''cmd.txt''"
proof -
  have conf: "regexp_conforms sample_libs"
    by (simp add: regexp_conforms_def sample_libs_def)
  show ?thesis
    using conf file_pattern_is_not_a_glob [OF conf] by simp
qed

subsection \<open>The destination path\<close>

text \<open>
  C5, as the claim states it, fails: an override is given, the empty string, and the
  destination is not the override but the default path in the output directory
  (\<open>outputPath || ...\<close> treats the empty string as absent).
\<close>

theorem empty_override_ignored_counterexample:
  "fst (convertDocument sample_libs sample_config ''in/good.md'' ''html'' (Some []) sample_world) =
     Inr ''out/good.html''"
  by code_simp

text \<open>
  C5, amended. The path a conversion returns is the caller's override when one is given and
  is not the empty string; otherwise (no override, or the empty string) it is
  \<open>path.join(output_directory, base name + "." + output format)\<close>, which resolves to the
  entry of that name directly inside the output directory.
\<close>

theorem destination_path:
  assumes "convertDocument L cfg inputPath outputFormat outputPath w = (Inr dest, w')"
  shows "(\<forall>p. outputPath = Some p \<and> p \<noteq> [] \<longrightarrow> dest = p)
       \<and> (outputPath = None \<or> outputPath = Some [] \<longrightarrow>
            dest = path_join (output_directory cfg)
                     (path_basename inputPath (path_extname inputPath) @ ''.'' @ outputFormat)
          \<and> resolve (cwd w) dest =
              resolve (cwd w) (output_directory cfg) @
                [path_basename inputPath (path_extname inputPath) @ ''.'' @ outputFormat])"
proof -
  have d: "dest = finalOutputPath cfg inputPath outputFormat outputPath"
    and f: "outputFormat \<in> {''html'', ''md'', ''txt'', ''pdf''}"
    using convertDocument_success [OF assms] by simp_all
  have v: "valid_name (path_basename inputPath (path_extname inputPath) @ ''.'' @ outputFormat)"
    using f by (rule default_name_valid)
  show ?thesis
    using d resolve_path_join [OF v, of "cwd w" "output_directory cfg"]
    by (auto simp: finalOutputPath_def Let_def)
qed

theorem destination_path_witness:
  "convertDocument sample_libs sample_config ''in/good.md'' ''html'' None sample_world =
     (Inr ''out/good.html'',
      snd (convertDocument sample_libs sample_config ''in/good.md'' ''html'' None sample_world))
   \<and> ''out/good.html'' =
       path_join (output_directory sample_config)
         (path_basename ''in/good.md'' (path_extname ''in/good.md'') @ ''.'' @ ''html'')
   \<and> resolve (cwd sample_world) ''out/good.html'' =
       resolve (cwd sample_world) (output_directory sample_config) @
         [path_basename ''in/good.md'' (path_extname ''in/good.md'') @ ''.'' @ ''html'']"
proof -
  have h: "convertDocument sample_libs sample_config ''in/good.md'' ''html'' None sample_world =
      (Inr ''out/good.html'',
       snd (convertDocument sample_libs sample_config ''in/good.md'' ''html'' None sample_world))"
    by code_simp
  show ?thesis
    using destination_path [OF h] h by blast
qed

subsection \<open>Markdown to Markdown\<close>

text \<open>
  C6, as the claim states it, fails: the output is not byte-identical to the input for every
  Markdown file. The file is read as UTF-8 text and the text is written back, so bytes that
  are not UTF-8 come out replaced: the file of the two bytes \<open>FF 41\<close> is converted with
  success, and the output holds the four bytes \<open>EF BF BD 41\<close>.
\<close>

theorem markdown_bytes_changed_counterexample:
  "detectFormat ''in/latin.md'' = ''md''
   \<and> lookup_path encodings_world ''in/latin.md'' = Inr (File [CHR 0xFF, CHR 0x41])
   \<and> fst (convertDocument node_libs sample_config ''in/latin.md'' ''md'' None encodings_world) =
       Inr ''out/latin.md''
   \<and> node_at (snd (convertDocument node_libs sample_config ''in/latin.md'' ''md'' None
           encodings_world)) [''app'', ''out'', ''latin.md''] =
       Some (File [CHR 0xEF, CHR 0xBF, CHR 0xBD, CHR 0x41])"
  by code_simp

text \<open>
  C6, amended. Converting a Markdown document to \<open>md\<close> is the identity on its text: the text
  \<open>fs.writeFile\<close> is given is the text \<open>fs.readFile\<close> returned (the content of the document
  read), no library is called in between (the trace has the four file-system calls only), and
  the destination then holds the encoding of the decoded input. Whenever the bytes of the
  input are what their decoded text encodes to, which is what being valid UTF-8 means, the
  output is byte-identical to the input.
\<close>

theorem markdown_to_markdown_is_identity:
  assumes md: "detectFormat inputPath = ''md''"
    and cd: "convertDocument L cfg inputPath ''md'' outputPath w = (Inr dest, w')"
  shows "\<exists>bytes doc w1 w2.
           lookup_path w inputPath = Inr (File bytes)
         \<and> readDocument L cfg inputPath w = (Inr doc, w1)
         \<and> content doc = utf8_decode L bytes
         \<and> fs_ensureDir (output_directory cfg) w1 = (Inr (), w2)
         \<and> fs_writeText L dest (content doc) w2 = (Inr (), w')
         \<and> node_at w' (resolve (cwd w') dest) = Some (File (utf8_encode L (utf8_decode L bytes)))
         \<and> trace w' = trace w @ [Stat inputPath, ReadFile inputPath,
              EnsureDir (output_directory cfg),
              WriteFile dest (utf8_encode L (utf8_decode L bytes))]
         \<and> (utf8_encode L (utf8_decode L bytes) = bytes \<longrightarrow>
              node_at w' (resolve (cwd w') dest) = Some (File bytes))"
  using cd
proof (cases rule: convertDocument_cases)
  case (dispatched doc w1 w2)
  obtain st w0 where st: "fs_stat inputPath w = (Inr st, w0)"
    and rm: "readMarkdown L inputPath w0 = (Inr doc, w1)"
    using dispatched(1) md
    by (auto simp: readDocument_def Let_def split: prod.splits sum.splits if_splits)
  have w0: "w0 = log (Stat inputPath) w" using st by (rule fs_stat_world)
  obtain bytes where b: "lookup_path w inputPath = Inr (File bytes)"
    and c: "content doc = utf8_decode L bytes" and f: "format doc = ''md''"
    and w1: "w1 = log (ReadFile inputPath) w0"
    using readMarkdown_success [OF rm] w0 by auto
  have t2: "trace w2 = trace w1 @ [EnsureDir (output_directory cfg)]"
    using dispatched(3) by (auto simp: fs_ensureDir_def Let_def log_def split: if_splits)
  have wc: "write_converted L (finalOutputPath cfg inputPath ''md'' outputPath)
      (Inr (content doc), w2) = (Inr dest, w')"
    using dispatched(4) f by (simp add: convertToMarkdown_def)
  have wt: "fs_writeText L dest (content doc) w2 = (Inr (), w')"
    using write_converted_success [OF wc] by auto
  have wr: "node_at w' (resolve (cwd w') dest) = Some (File (utf8_encode L (content doc)))
      \<and> trace w' = trace w2 @ [WriteFile dest (utf8_encode L (content doc))]"
    using wt unfolding fs_writeText_def by (rule fs_writeFile_written)
  show ?thesis
    using b dispatched(1,3) c wt wr t2 w1 w0 by auto
qed simp_all

theorem markdown_to_markdown_witness:
  "detectFormat ''in/accent.md'' = ''md''
   \<and> lookup_path encodings_world ''in/accent.md'' =
       Inr (File [CHR 0x23, CHR 0x20, CHR 0xC3, CHR 0xA9])
   \<and> utf8_encode node_libs (utf8_decode node_libs [CHR 0x23, CHR 0x20, CHR 0xC3, CHR 0xA9]) =
       [CHR 0x23, CHR 0x20, CHR 0xC3, CHR 0xA9]
   \<and> fst (convertDocument node_libs sample_config ''in/accent.md'' ''md'' None encodings_world) =
       Inr ''out/accent.md''
   \<and> node_at (snd (convertDocument node_libs sample_config ''in/accent.md'' ''md'' None
           encodings_world))
        (resolve (cwd (snd (convertDocument node_libs sample_config ''in/accent.md'' ''md'' None
           encodings_world))) ''out/accent.md'') =
       Some (File [CHR 0x23, CHR 0x20, CHR 0xC3, CHR 0xA9])"
proof -
  define w' where
    "w' = snd (convertDocument node_libs sample_config ''in/accent.md'' ''md'' None encodings_world)"
  have md: "detectFormat ''in/accent.md'' = ''md''"
    by code_simp
  have h: "convertDocument node_libs sample_config ''in/accent.md'' ''md'' None encodings_world =
      (Inr ''out/accent.md'', w')"
    unfolding w'_def by code_simp
  have lk: "lookup_path encodings_world ''in/accent.md'' =
      Inr (File [CHR 0x23, CHR 0x20, CHR 0xC3, CHR 0xA9])"
    by code_simp
  have rt: "utf8_encode node_libs (utf8_decode node_libs [CHR 0x23, CHR 0x20, CHR 0xC3, CHR 0xA9]) =
      [CHR 0x23, CHR 0x20, CHR 0xC3, CHR 0xA9]"
    by code_simp
  obtain bytes where b: "lookup_path encodings_world ''in/accent.md'' = Inr (File bytes)"
    and n: "utf8_encode node_libs (utf8_decode node_libs bytes) = bytes \<longrightarrow>
      node_at w' (resolve (cwd w') ''out/accent.md'') = Some (File bytes)"
    using markdown_to_markdown_is_identity [OF md h] by auto
  have "bytes = [CHR 0x23, CHR 0x20, CHR 0xC3, CHR 0xA9]"
    using b lk by simp
  then have nn: "node_at w' (resolve (cwd w') ''out/accent.md'') =
      Some (File [CHR 0x23, CHR 0x20, CHR 0xC3, CHR 0xA9])"
    using n rt by simp
  have f: "fst (convertDocument node_libs sample_config ''in/accent.md'' ''md'' None
      encodings_world) = Inr ''out/accent.md''"
    by (subst h) simp
  show ?thesis
    unfolding w'_def [symmetric] using md lk rt f nn by (intro conjI)
qed

subsection \<open>The output directory\<close>

text \<open>
  C9, as the claim states it, fails: \<open>convertDocument\<close> does not always create the output
  directory. With an override pointing elsewhere and an input that cannot be read (a text
  file above the size limit, or a file whose extension is not recognised) it fails before
  \<open>fs.ensureDir\<close>, and the output directory does not exist afterwards.
\<close>

theorem output_directory_not_created_counterexample:
  "fst (convertDocument sample_libs sample_config ''in/big.txt'' ''html''
         (Some ''elsewhere/x.html'') sample_world) = Inl (FileSizeExceeded 10)
   \<and> node_at (snd (convertDocument sample_libs sample_config ''in/big.txt'' ''html''
         (Some ''elsewhere/x.html'') sample_world))
       (resolve (cwd sample_world) (output_directory sample_config)) = None
   \<and> fst (convertDocument sample_libs sample_config ''in/bad.xyz'' ''html''
         (Some ''elsewhere/x.html'') sample_world) = Inl (UnsupportedFileFormat ''unknown'')
   \<and> node_at (snd (convertDocument sample_libs sample_config ''in/bad.xyz'' ''html''
         (Some ''elsewhere/x.html'') sample_world))
       (resolve (cwd sample_world) (output_directory sample_config)) = None"
  by code_simp

text \<open>
  C9, amended. The only directories \<open>convertDocument\<close> creates are the configured output
  directory and its ancestors, so the parent directory of an override path is never created
  unless it is one of these. And once the document has been read and the output format is
  among the supported ones, the output directory is ensured whatever the override: either
  \<open>fs.ensureDir\<close> fails and \<open>convertDocument\<close> fails with its error, or the output
  directory exists when \<open>convertDocument\<close> is done.
\<close>

theorem output_directory_ensured:
  assumes cd: "convertDocument L cfg inputPath outputFormat outputPath w = (r, w')"
  shows "(\<forall>k. node_at w' k = Some Dir \<longrightarrow>
            node_at w k = Some Dir \<or> k \<in> set (prefixes_of (resolve (cwd w) (output_directory cfg))))
       \<and> (\<forall>doc w1. readDocument L cfg inputPath w = (Inr doc, w1)
              \<and> outputFormat \<in> set (supported_formats_output cfg) \<longrightarrow>
            (\<exists>e. fs_ensureDir (output_directory cfg) w1 = (Inl e, w') \<and> r = Inl e)
            \<or> node_at w' (resolve (cwd w) (output_directory cfg)) = Some Dir)"
proof (intro conjI allI impI)
  fix k
  assume "node_at w' k = Some Dir"
  then show "node_at w k = Some Dir \<or> k \<in> set (prefixes_of (resolve (cwd w) (output_directory cfg)))"
    using convertDocument_evolves [OF cd] by (simp add: evolves_def)
next
  fix doc w1
  assume a: "readDocument L cfg inputPath w = (Inr doc, w1)
      \<and> outputFormat \<in> set (supported_formats_output cfg)"
  show "(\<exists>e. fs_ensureDir (output_directory cfg) w1 = (Inl e, w') \<and> r = Inl e)
      \<or> node_at w' (resolve (cwd w) (output_directory cfg)) = Some Dir"
    using cd
  proof (cases rule: convertDocument_cases)
    case (read_failed e)
    then show ?thesis using a by simp
  next
    case (unsupported doc')
    then show ?thesis using a by simp
  next
    case (ensure_failed doc' w1' e)
    then show ?thesis using a by auto
  next
    case (dispatched doc' w1' w2)
    have c: "cwd w1' = cwd w"
      using readDocument_evolves [OF dispatched(1)] by (simp add: evolves_def)
    have "node_at w2 (resolve (cwd w) (output_directory cfg)) = Some Dir"
      using fs_ensureDir_success_dir [OF dispatched(3)] c by simp
    moreover have "evolves [] w2 w'"
      using dispatched(4) by (rule dispatch_evolves)
    ultimately show ?thesis by (simp add: evolves_def)
  qed
qed

theorem output_directory_ensured_witness:
  "fst (readDocument sample_libs sample_config ''in/good.md'' sample_world) =
     Inr \<lparr>content = ''# Hi'', format = ''md'', metadata = None\<rparr>
   \<and> ''md'' \<in> set (supported_formats_output sample_config)
   \<and> node_at (snd (convertDocument sample_libs sample_config ''in/good.md'' ''md''
         (Some ''elsewhere/x.md'') sample_world))
       (resolve (cwd sample_world) (output_directory sample_config)) = Some Dir
   \<and> node_at (snd (convertDocument sample_libs sample_config ''in/good.md'' ''md''
         (Some ''elsewhere/x.md'') sample_world)) [''app'', ''elsewhere''] \<noteq> Some Dir"
proof -
  define r where "r = fst (convertDocument sample_libs sample_config ''in/good.md'' ''md''
         (Some ''elsewhere/x.md'') sample_world)"
  define w' where "w' = snd (convertDocument sample_libs sample_config ''in/good.md'' ''md''
         (Some ''elsewhere/x.md'') sample_world)"
  define w1 where "w1 = log (ReadFile ''in/good.md'') (log (Stat ''in/good.md'') sample_world)"
  have cd: "convertDocument sample_libs sample_config ''in/good.md'' ''md''
         (Some ''elsewhere/x.md'') sample_world = (r, w')"
    by (simp add: r_def w'_def)
  have rd: "readDocument sample_libs sample_config ''in/good.md'' sample_world =
      (Inr \<lparr>content = ''# Hi'', format = ''md'', metadata = None\<rparr>, w1)"
    unfolding w1_def by code_simp
  have sup: "''md'' \<in> set (supported_formats_output sample_config)"
    by (simp add: sample_config_def)
  have ok: "fst (fs_ensureDir (output_directory sample_config) w1) = Inr ()"
    unfolding w1_def by code_simp
  have old: "node_at sample_world [''app'', ''elsewhere''] \<noteq> Some Dir"
    by code_simp
  have np: "[''app'', ''elsewhere''] \<notin>
      set (prefixes_of (resolve (cwd sample_world) (output_directory sample_config)))"
    by code_simp
  note inst = output_directory_ensured [OF cd]
  have "(\<exists>e. fs_ensureDir (output_directory sample_config) w1 = (Inl e, w') \<and> r = Inl e)
      \<or> node_at w' (resolve (cwd sample_world) (output_directory sample_config)) = Some Dir"
    using inst rd sup by blast
  then have a: "node_at w' (resolve (cwd sample_world) (output_directory sample_config)) = Some Dir"
    using ok by auto
  have b: "node_at w' [''app'', ''elsewhere''] \<noteq> Some Dir"
    using inst old np by blast
  have rd': "fst (readDocument sample_libs sample_config ''in/good.md'' sample_world) =
     Inr \<lparr>content = ''# Hi'', format = ''md'', metadata = None\<rparr>"
    by (subst rd) simp
  show ?thesis
    unfolding w'_def [symmetric] using rd' sup a b by (intro conjI)
qed

subsection \<open>Batch conversion\<close>

text \<open>
  C1, as the claim states it, fails on the order: the summary does not list the per-file
  outcomes in directory-listing order. The code keeps two arrays and prints all successes
  before all failures; for the listing \<open>bad.xyz, good.md, sub, big.txt, full.txt, good.txt\<close>
  (\<open>sub\<close> is a directory) the summary names \<open>good.md\<close> first and \<open>bad.xyz\<close> fourth.
\<close>

theorem batch_summary_not_in_listing_order_counterexample:
  "fst (batch_convert sample_libs sample_config ''in'' ''html'' None sample_world) =
     Inr \<lparr>successfully_converted = 3, failed = 2,
          successful_conversions =
            [(''good.md'', ''good.html''), (''full.txt'', ''full.html''),
             (''good.txt'', ''good.html'')],
          failed_conversions =
            [(''bad.xyz'', UnsupportedFileFormat ''unknown''),
             (''big.txt'', FileSizeExceeded 10)]\<rparr>
   \<and> map outcome_file (summary_outcomes
         \<lparr>successfully_converted = 3, failed = 2,
          successful_conversions =
            [(''good.md'', ''good.html''), (''full.txt'', ''full.html''),
             (''good.txt'', ''good.html'')],
          failed_conversions =
            [(''bad.xyz'', UnsupportedFileFormat ''unknown''),
             (''big.txt'', FileSizeExceeded 10)]\<rparr>) =
       [''good.md'', ''full.txt'', ''good.txt'', ''bad.xyz'', ''big.txt'']
   \<and> fst (fs_readdir ''in'' sample_world) =
       Inr [''bad.xyz'', ''good.md'', ''sub'', ''big.txt'', ''full.txt'', ''good.txt'']
   \<and> matched_files sample_libs ''in'' None sample_world
         [''bad.xyz'', ''good.md'', ''sub'', ''big.txt'', ''full.txt'', ''good.txt''] =
       [''bad.xyz'', ''good.md'', ''big.txt'', ''full.txt'', ''good.txt'']"
proof (intro conjI)
  show "fst (batch_convert sample_libs sample_config ''in'' ''html'' None sample_world) =
     Inr \<lparr>successfully_converted = 3, failed = 2,
          successful_conversions =
            [(''good.md'', ''good.html''), (''full.txt'', ''full.html''),
             (''good.txt'', ''good.html'')],
          failed_conversions =
            [(''bad.xyz'', UnsupportedFileFormat ''unknown''),
             (''big.txt'', FileSizeExceeded 10)]\<rparr>"
    by code_simp
  show "map outcome_file (summary_outcomes
         \<lparr>successfully_converted = 3, failed = 2,
          successful_conversions =
            [(''good.md'', ''good.html''), (''full.txt'', ''full.html''),
             (''good.txt'', ''good.html'')],
          failed_conversions =
            [(''bad.xyz'', UnsupportedFileFormat ''unknown''),
             (''big.txt'', FileSizeExceeded 10)]\<rparr>) =
       [''good.md'', ''full.txt'', ''good.txt'', ''bad.xyz'', ''big.txt'']"
    by (simp add: summary_outcomes_def)
  show "fst (fs_readdir ''in'' sample_world) =
       Inr [''bad.xyz'', ''good.md'', ''sub'', ''big.txt'', ''full.txt'', ''good.txt'']"
    by code_simp
  show "matched_files sample_libs ''in'' None sample_world
         [''bad.xyz'', ''good.md'', ''sub'', ''big.txt'', ''full.txt'', ''good.txt''] =
       [''bad.xyz'', ''good.md'', ''big.txt'', ''full.txt'', ''good.txt'']"
    by code_simp
qed

text \<open>
  C1, amended. For a well-formed world (it has no links, so every listed entry answers
  \<open>fs.stat\<close>), a directory that can be listed and a pattern that compiles,
  \<open>batch_convert\<close> returns a summary (it never fails as a whole): its successes and
  its failures are the successes and the failures of the specification's sequence of
  outcomes, each in listing order; that sequence has one outcome for every matched file (the
  regular files of the listing that pass the pattern) and no other, each outcome being what
  \<open>convertDocument\<close> returned for that file in the world the files before it left, whether
  they failed or not; and the two counts add up to the number of matched files.
\<close>

theorem batch_outcomes_cover_matched_files:
  assumes wf: "wf_world w"
    and ls: "fs_readdir input_directory w = (Inr files, w1)"
    and pt: "\<forall>f \<in> set files. \<exists>b. file_matches L file_pattern f = Inr b"
  shows "\<exists>w'. batch_convert L cfg input_directory output_format file_pattern w =
           (Inr \<lparr>successfully_converted =
                   length (converted_of (spec_batch_outcomes L cfg input_directory output_format
                     file_pattern files w1)),
                 failed =
                   length (failed_of (spec_batch_outcomes L cfg input_directory output_format
                     file_pattern files w1)),
                 successful_conversions =
                   converted_of (spec_batch_outcomes L cfg input_directory output_format
                     file_pattern files w1),
                 failed_conversions =
                   failed_of (spec_batch_outcomes L cfg input_directory output_format
                     file_pattern files w1)\<rparr>, w')
         \<and> map fst (spec_batch_outcomes L cfg input_directory output_format file_pattern files w1) =
             matched_files L input_directory file_pattern w files
         \<and> length (converted_of (spec_batch_outcomes L cfg input_directory output_format
               file_pattern files w1))
           + length (failed_of (spec_batch_outcomes L cfg input_directory output_format
               file_pattern files w1))
           = length (matched_files L input_directory file_pattern w files)"
proof -
  define outs where
    "outs = spec_batch_outcomes L cfg input_directory output_format file_pattern files w1"
  have w1: "w1 = log (Readdir input_directory) w"
    using ls by (auto simp: fs_readdir_def)
  have files: "files = children (entries w) (resolve (cwd w) input_directory)"
    using ls by (auto simp: fs_readdir_def split: sum.splits node.splits)
  have e: "evolves (prefixes_of (resolve (cwd w) (output_directory cfg))) w w1"
    unfolding w1 by (rule evolves_log)
  have names: "\<forall>f \<in> set files.
      valid_name f \<and> node_at w (resolve (cwd w) input_directory @ [f]) \<noteq> None"
  proof
    fix f
    assume f: "f \<in> set files"
    then have "valid_name f" using wf files children_valid by simp
    moreover have "map_of (entries w) (resolve (cwd w) input_directory @ [f]) \<noteq> None"
      using f files children_exist by simp
    ultimately show "valid_name f \<and> node_at w (resolve (cwd w) input_directory @ [f]) \<noteq> None"
      by (simp add: node_at_def)
  qed
  obtain w' where bl: "batch_loop L cfg input_directory output_format file_pattern files [] [] w1 =
        (Inr ([] @ converted_of outs, [] @ failed_of outs), w')"
    and mf: "map fst outs = matched_files L input_directory file_pattern w files"
    using batch_loop_refines [where results = "[]" and errors = "[]" and fmt = output_format,
        OF e refl names pt]
    unfolding outs_def by blast
  have bc: "batch_convert L cfg input_directory output_format file_pattern w =
      (Inr \<lparr>successfully_converted = length (converted_of outs), failed = length (failed_of outs),
            successful_conversions = converted_of outs, failed_conversions = failed_of outs\<rparr>, w')"
    using ls bl by (simp add: batch_convert_def)
  have len: "length (converted_of outs) + length (failed_of outs) =
      length (matched_files L input_directory file_pattern w files)"
    using length_outcomes [of outs] mf by (metis length_map)
  show ?thesis
    using bc mf len unfolding outs_def by blast
qed

theorem batch_outcomes_witness:
  "wf_world sample_world
   \<and> fst (fs_readdir ''in'' sample_world) =
       Inr [''bad.xyz'', ''good.md'', ''sub'', ''big.txt'', ''full.txt'', ''good.txt'']
   \<and> (\<exists>w'. batch_convert sample_libs sample_config ''in'' ''html'' None sample_world =
         (Inr \<lparr>successfully_converted = 3, failed = 2,
               successful_conversions =
                 [(''good.md'', ''good.html''), (''full.txt'', ''full.html''),
                  (''good.txt'', ''good.html'')],
               failed_conversions =
                 [(''bad.xyz'', UnsupportedFileFormat ''unknown''),
                  (''big.txt'', FileSizeExceeded 10)]\<rparr>, w'))
   \<and> length (matched_files sample_libs ''in'' None sample_world
         [''bad.xyz'', ''good.md'', ''sub'', ''big.txt'', ''full.txt'', ''good.txt'']) = 5"
proof -
  define files where
    "files = [''bad.xyz'', ''good.md'', ''sub'', ''big.txt'', ''full.txt'', ''good.txt'']"
  define w1 where "w1 = log (Readdir ''in'') sample_world"
  have wf: "wf_world sample_world"
    by code_simp
  have ls: "fs_readdir ''in'' sample_world = (Inr files, w1)"
    unfolding files_def w1_def by code_simp
  have pt: "\<forall>f \<in> set files. \<exists>b. file_matches sample_libs None f = Inr b"
    by (auto simp: file_matches_def)
  have outs: "spec_batch_outcomes sample_libs sample_config ''in'' ''html'' None files w1 =
      [(''bad.xyz'', Inl (UnsupportedFileFormat ''unknown'')),
       (''good.md'', Inr ''out/good.html''),
       (''big.txt'', Inl (FileSizeExceeded 10)),
       (''full.txt'', Inr ''out/full.html''),
       (''good.txt'', Inr ''out/good.html'')]"
    unfolding files_def w1_def by code_simp
  have bn: "path_basename ''out/good.html'' [] = ''good.html''"
    "path_basename ''out/full.html'' [] = ''full.html''"
    by code_simp+
  have ls': "fst (fs_readdir ''in'' sample_world) = Inr files"
    by (subst ls) simp
  show ?thesis
    using batch_outcomes_cover_matched_files [OF wf ls pt, of sample_config "''html''"] wf ls'
    unfolding outs files_def [symmetric] by (simp add: bn eval_nat_numeral)
qed




end
